theory Spec2Isabelle
  imports Main
begin

section \<open>JavaScript values held by the editors\<close>

text \<open>
  Both editors (\<^verbatim>\<open>PipelineEditor\<close> in \<^verbatim>\<open>studio/pipeline_canvas_editor.tsx\<close> and
  \<^verbatim>\<open>EnhancedPipelineEditor\<close> in the second source file) keep the SPC document in one
  React state cell \<^verbatim>\<open>spc\<close>. The cell is untyped: \<^verbatim>\<open>setSpc(JSON.parse(text))\<close>
  stores whatever the text denotes. The document is therefore modelled as a JSON value.
  An object is the list of its own properties in enumeration order. Numbers carry an
  integer: the code below only ever asks whether a number is zero.
\<close>

datatype json =
    JNull
  | JBool bool
  | JNum int
  | JStr string
  | JArr "json list"
  | JObj "(string \<times> json) list"

text \<open>
  Errors thrown by the modelled code. \<^verbatim>\<open>SyntaxError\<close> carries the message chosen by the
  JavaScript engine, \<^verbatim>\<open>Error\<close> the message given to \<^verbatim>\<open>new Error(...)\<close>. The wording
  of a \<^verbatim>\<open>TypeError\<close> is the engine's too; \<open>message\<close> gives the beginning of V8's.
\<close>

datatype js_error = SyntaxError string | TypeError | Error string

definition message :: "js_error \<Rightarrow> string" where
  "message e = (case e of
      SyntaxError m \<Rightarrow> m
    | TypeError \<Rightarrow> ''Cannot read properties of null''
    | Error m \<Rightarrow> m)"

text \<open>Decimal rendering of a number inside a template literal.\<close>

definition digit :: "nat \<Rightarrow> char" where
  "digit d = ''0123456789'' ! d"

fun show_nat :: "nat \<Rightarrow> string" where
  "show_nat n = (if n < 10 then [digit n] else show_nat (n div 10) @ [digit (n mod 10)])"

declare show_nat.simps [simp del]

definition show_int :: "int \<Rightarrow> string" where
  "show_int i = (if i < 0 then CHR ''-'' # show_nat (nat (- i)) else show_nat (nat i))"

text \<open>
  \<open>truthy\<close> is JavaScript's \<^verbatim>\<open>ToBoolean\<close>; \<open>None\<close> stands for \<^verbatim>\<open>undefined\<close>, the
  result of reading a property that is not there.
\<close>

fun truthy :: "json option \<Rightarrow> bool" where
  "truthy None = False"
| "truthy (Some JNull) = False"
| "truthy (Some (JBool b)) = b"
| "truthy (Some (JNum n)) = (n \<noteq> 0)"
| "truthy (Some (JStr s)) = (s \<noteq> [])"
| "truthy (Some (JArr xs)) = True"
| "truthy (Some (JObj kvs)) = True"

text \<open>
  The own enumerable properties of a value, in the order \<^verbatim>\<open>Object.keys\<close>,
  \<^verbatim>\<open>Object.values\<close> and object spread \<^verbatim>\<open>{...v}\<close> visit them: the entries of an object,
  the indexed elements of an array, the indexed characters of a string, nothing for
  the other values. Spreading \<^verbatim>\<open>undefined\<close> or \<^verbatim>\<open>null\<close> copies nothing.
\<close>

definition indexed :: "'a list \<Rightarrow> (string \<times> 'a) list" where
  "indexed xs = zip (map show_nat [0..<length xs]) xs"

fun own_props :: "json \<Rightarrow> (string \<times> json) list" where
  "own_props (JObj kvs) = kvs"
| "own_props (JArr xs) = indexed xs"
| "own_props (JStr s) = indexed (map (\<lambda>c. JStr [c]) s)"
| "own_props JNull = []"
| "own_props (JBool b) = []"
| "own_props (JNum n) = []"

fun spread :: "json option \<Rightarrow> (string \<times> json) list" where
  "spread None = []"
| "spread (Some v) = own_props v"

text \<open>
  Reading a property, \<^verbatim>\<open>v.k\<close> or \<^verbatim>\<open>v[k]\<close>. Reading from \<^verbatim>\<open>null\<close> or
  \<^verbatim>\<open>undefined\<close> throws a \<^verbatim>\<open>TypeError\<close>. Properties inherited from the prototypes are
  left out: none of the names the editors read (\<^verbatim>\<open>spc_version\<close>, \<^verbatim>\<open>services\<close>,
  \<^verbatim>\<open>meta\<close>, \<^verbatim>\<open>name\<close>, \<^verbatim>\<open>status\<close>, \<^verbatim>\<open>type\<close>) is one.
\<close>

fun get_prop :: "json option \<Rightarrow> string \<Rightarrow> js_error + json option" where
  "get_prop None k = Inl TypeError"
| "get_prop (Some JNull) k = Inl TypeError"
| "get_prop (Some v) k = Inr (map_of (own_props v) k)"

text \<open>
  Defining a property that is not an array index, as \<^verbatim>\<open>{...o, k: v}\<close>,
  \<^verbatim>\<open>{...o, [k]: v}\<close> and \<^verbatim>\<open>o.k = v\<close> do: an existing key keeps its place and gets the
  new value, a new key goes last.
\<close>

fun set_prop :: "string \<Rightarrow> json \<Rightarrow> (string \<times> json) list \<Rightarrow> (string \<times> json) list" where
  "set_prop k v [] = [(k, v)]"
| "set_prop k v ((k', v') # kvs) =
     (if k' = k then (k, v) # kvs else (k', v') # set_prop k v kvs)"

section \<open>The execution log\<close>

text \<open>
  \<^verbatim>\<open>addLog\<close> is \<^verbatim>\<open>setLogs(prev => [...prev, {level, message, timestamp}].slice(-cap))\<close>,
  with cap 50 in \<^verbatim>\<open>PipelineEditor\<close> and 30 in \<^verbatim>\<open>EnhancedPipelineEditor\<close>. The
  timestamp is \<^verbatim>\<open>new Date().toLocaleTimeString()\<close>: the clock reading is an argument.
  The entry's field \<^verbatim>\<open>message\<close> is \<open>message_text\<close> here.
\<close>

record log_entry =
  level :: string
  message_text :: string
  timestamp :: string

text \<open>\<^verbatim>\<open>xs.slice(-n)\<close>: from index \<open>max (length xs - n) 0\<close> to the end.\<close>

definition slice_last :: "nat \<Rightarrow> 'a list \<Rightarrow> 'a list" where
  "slice_last n xs = drop (length xs - n) xs"

definition log_cap_PE :: nat where
  "log_cap_PE = 50"

definition log_cap_EPE :: nat where
  "log_cap_EPE = 30"

definition push_log :: "nat \<Rightarrow> log_entry \<Rightarrow> log_entry list \<Rightarrow> log_entry list" where
  "push_log cap e prev = slice_last cap (prev @ [e])"

definition entry :: "string \<Rightarrow> string \<Rightarrow> string \<Rightarrow> log_entry" where
  "entry lv msg ts = \<lparr>level = lv, message_text = msg, timestamp = ts\<rparr>"

text \<open>A sequence of appends, oldest first.\<close>

fun push_logs :: "nat \<Rightarrow> log_entry list \<Rightarrow> log_entry list \<Rightarrow> log_entry list" where
  "push_logs cap [] prev = prev"
| "push_logs cap (e # es) prev = push_logs cap es (push_log cap e prev)"

section \<open>Editor state\<close>

text \<open>
  The state cells of the two components that the operations below read or write. The
  cells that only steer the display (\<^verbatim>\<open>viewMode\<close>, \<^verbatim>\<open>canvasNodes\<close>,
  \<^verbatim>\<open>connections\<close>, \<^verbatim>\<open>zoom\<close>, \<^verbatim>\<open>pan\<close>) are left out. State updates are applied
  at once, so the \<^verbatim>\<open>prev\<close> of an updater is the \<^verbatim>\<open>spc\<close> the handler sees.

  \<open>timeouts\<close> counts the pending \<^verbatim>\<open>setTimeout\<close> callbacks of \<^verbatim>\<open>PipelineEditor\<close>.
  \<open>intervals\<close> holds one slot per \<^verbatim>\<open>setInterval\<close> call of
  \<^verbatim>\<open>EnhancedPipelineEditor\<close>: the slot's index is the interval's handle, \<open>Some n\<close> is an
  active interval whose closure variable \<^verbatim>\<open>tick\<close> is \<open>n\<close>, \<open>None\<close> a cleared one.
\<close>

record editor_core =
  spc :: json
  isRunning :: bool

record pipeline_editor = editor_core +
  selectedService :: "string option"
  executionLog :: "log_entry list"
  jsonError :: "string option"
  timeouts :: nat

record enhanced_editor = editor_core +
  selectedNode :: "string option"
  logs :: "log_entry list"
  intervals :: "nat option list"

definition addLog_PE :: "string \<Rightarrow> string \<Rightarrow> string \<Rightarrow> pipeline_editor \<Rightarrow> pipeline_editor" where
  "addLog_PE lv msg ts st =
     st\<lparr>executionLog := push_log log_cap_PE (entry lv msg ts) (executionLog st)\<rparr>"

definition addLog_EPE :: "string \<Rightarrow> string \<Rightarrow> string \<Rightarrow> enhanced_editor \<Rightarrow> enhanced_editor" where
  "addLog_EPE lv msg ts st =
     st\<lparr>logs := push_log log_cap_EPE (entry lv msg ts) (logs st)\<rparr>"

text \<open>The pictographs of the log messages, as their UTF-8 bytes.\<close>

definition pic_play :: string where
  "pic_play = [CHR 0xE2, CHR 0x96, CHR 0xB6, CHR 0xEF, CHR 0xB8, CHR 0x8F]"

definition pic_zap :: string where
  "pic_zap = [CHR 0xE2, CHR 0x9A, CHR 0xA1]"

definition pic_check :: string where
  "pic_check = [CHR 0xE2, CHR 0x9C, CHR 0x85]"

definition pic_stop :: string where
  "pic_stop = [CHR 0xE2, CHR 0x8F, CHR 0xB9]"

definition pic_inbox :: string where
  "pic_inbox = [CHR 0xF0, CHR 0x9F, CHR 0x93, CHR 0xA5]"

definition pic_outbox :: string where
  "pic_outbox = [CHR 0xF0, CHR 0x9F, CHR 0x93, CHR 0xA4]"

section \<open>Import\<close>

text \<open>
  \<^verbatim>\<open>JSON.parse\<close> belongs to the platform and is a parameter: it returns the parsed value
  or throws a \<^verbatim>\<open>SyntaxError\<close>. The file picked by the user is \<open>Some text\<close>, or
  \<open>None\<close> when the dialog was closed without one.

  \<open>load_PE\<close> is the body of \<^verbatim>\<open>PipelineEditor\<close>'s \<^verbatim>\<open>try\<close> block down to the
  \<^verbatim>\<open>throw\<close>:
  \<^verbatim>\<open>const imported = JSON.parse(e.target.result);
  if (!imported.spc_version || !imported.services) throw new Error('Invalid SPC format');\<close>
\<close>

type_synonym parser = "string \<Rightarrow> js_error + json"

definition load_PE :: "parser \<Rightarrow> string \<Rightarrow> js_error + json" where
  "load_PE JSON_parse text =
     (case JSON_parse text of
        Inl e \<Rightarrow> Inl e
      | Inr imported \<Rightarrow>
          (case get_prop (Some imported) ''spc_version'' of
             Inl e \<Rightarrow> Inl e
           | Inr ver \<Rightarrow>
               if \<not> truthy ver then Inl (Error ''Invalid SPC format'')
               else
                 (case get_prop (Some imported) ''services'' of
                    Inl e \<Rightarrow> Inl e
                  | Inr svcs \<Rightarrow>
                      if \<not> truthy svcs then Inl (Error ''Invalid SPC format'')
                      else Inr imported)))"

definition importSPC_PE ::
  "parser \<Rightarrow> string option \<Rightarrow> string \<Rightarrow> pipeline_editor \<Rightarrow> pipeline_editor" where
  "importSPC_PE JSON_parse file ts st =
     (case file of
        None \<Rightarrow> st
      | Some text \<Rightarrow>
          (case load_PE JSON_parse text of
             Inr imported \<Rightarrow>
               addLog_PE ''info'' ''SPC imported successfully'' ts
                 (st\<lparr>spc := imported, jsonError := None\<rparr>)
           | Inl e \<Rightarrow>
               addLog_PE ''error'' (''Import failed: '' @ message e) ts
                 (st\<lparr>jsonError := Some (message e)\<rparr>)))"

text \<open>
  \<^verbatim>\<open>EnhancedPipelineEditor\<close>'s \<^verbatim>\<open>try\<close> block is
  \<^verbatim>\<open>const imported = JSON.parse(e.target.result); setSpc(imported); addLog(...)\<close>:
  nothing is checked after parsing.
\<close>

definition load_EPE :: "parser \<Rightarrow> string \<Rightarrow> js_error + json" where
  "load_EPE JSON_parse text = JSON_parse text"

definition importSPC_EPE ::
  "parser \<Rightarrow> string option \<Rightarrow> string \<Rightarrow> enhanced_editor \<Rightarrow> enhanced_editor" where
  "importSPC_EPE JSON_parse file ts st =
     (case file of
        None \<Rightarrow> st
      | Some text \<Rightarrow>
          (case load_EPE JSON_parse text of
             Inr imported \<Rightarrow>
               addLog_EPE ''success'' (pic_outbox @ '' SPC imported successfully'') ts
                 (st\<lparr>spc := imported\<rparr>)
           | Inl e \<Rightarrow>
               addLog_EPE ''error'' (''Import failed: '' @ message e) ts st))"

section \<open>Adding a service\<close>

text \<open>
  \<^verbatim>\<open>SERVICE_TYPES\<close> of \<^verbatim>\<open>PipelineEditor\<close>: for each primitive type its label and
  default spec (colour and icon are left out).
\<close>

definition SERVICE_TYPES :: "(string \<times> string \<times> json) list" where
  "SERVICE_TYPES =
    [(''connector'', ''Connector'',
        JObj [(''url'', JStr []), (''outputKey'', JStr [])]),
     (''processor'', ''Processor'',
        JObj [(''inputKey'', JStr []), (''outputKey'', JStr []), (''transform'', JArr [])]),
     (''monitor'', ''Monitor'',
        JObj [(''checks'', JArr []), (''emit'', JStr ''onChange'')]),
     (''adapter'', ''Adapter'',
        JObj [(''kind'', JStr ''webhook''), (''url'', JStr [])]),
     (''aggregator'', ''Aggregator'',
        JObj [(''inputKey'', JStr []), (''window'', JObj [(''size_sec'', JNum 30)])]),
     (''vault'', ''Vault'',
        JObj [(''provider'', JStr []), (''secrets'', JArr [])])]"

text \<open>The keys of \<^verbatim>\<open>SERVICE_CONFIGS\<close>, the palette of \<^verbatim>\<open>EnhancedPipelineEditor\<close>.\<close>

definition SERVICE_CONFIGS :: "string list" where
  "SERVICE_CONFIGS =
    [''connector'', ''processor'', ''monitor'', ''adapter'', ''aggregator'', ''vault'']"

text \<open>
  \<^verbatim>\<open>getDefaultSpec\<close> builds its table anew at every call, with the argument spliced
  into two of the entries, and returns \<^verbatim>\<open>defaults[type] || {}\<close>; every entry of the
  table is an object, hence truthy. Both palettes offer the six types of the tables
  only; a type that names a property of \<^verbatim>\<open>Object.prototype\<close> is not modelled.
\<close>

definition getDefaultSpec :: "string \<Rightarrow> json" where
  "getDefaultSpec type =
     (let defaults =
        [(''connector'',
            JObj [(''url'', JStr ''https://api.example.com/data''),
                  (''outputKey'', JStr (type @ ''_data''))]),
         (''processor'',
            JObj [(''inputKey'', JStr []), (''outputKey'', JStr (type @ ''_output'')),
                  (''transform'', JArr [])]),
         (''monitor'', JObj [(''checks'', JArr []), (''emit'', JStr ''onChange'')]),
         (''adapter'',
            JObj [(''kind'', JStr ''webhook''),
                  (''url'', JStr ''https://hooks.example.com/webhook'')]),
         (''aggregator'',
            JObj [(''inputKey'', JStr []), (''window'', JObj [(''size_sec'', JNum 30)])]),
         (''vault'', JObj [(''provider'', JStr ''hashicorp-vault''), (''secrets'', JArr [])])]
      in case map_of defaults type of Some d \<Rightarrow> d | None \<Rightarrow> JObj [])"

text \<open>\<^verbatim>\<open>Object.keys(v)\<close> and \<^verbatim>\<open>Object.values(v)\<close> throw on \<^verbatim>\<open>undefined\<close> and \<^verbatim>\<open>null\<close>.\<close>

fun object_entries :: "json option \<Rightarrow> js_error + (string \<times> json) list" where
  "object_entries None = Inl TypeError"
| "object_entries (Some JNull) = Inl TypeError"
| "object_entries (Some v) = Inr (own_props v)"

text \<open>The service literal both editors build.\<close>

definition new_service :: "string \<Rightarrow> string \<Rightarrow> string \<Rightarrow> json \<Rightarrow> int \<Rightarrow> int \<Rightarrow> json" where
  "new_service sid type title spec x y =
     JObj [(''id'', JStr sid), (''type'', JStr type), (''title'', JStr title), (''spec'', spec),
           (''status'', JStr ''stopped''),
           (''position'', JObj [(''x'', JNum x), (''y'', JNum y)])]"

text \<open>
  The state updater shared by the two \<^verbatim>\<open>addService\<close>:
  \<^verbatim>\<open>prev => ({...prev, services: {...prev.services, [id]: newService}})\<close>.
\<close>

definition add_updater :: "string \<Rightarrow> json \<Rightarrow> json \<Rightarrow> js_error + json" where
  "add_updater sid newService prev =
     (case get_prop (Some prev) ''services'' of
        Inl e \<Rightarrow> Inl e
      | Inr svcs \<Rightarrow>
          Inr (JObj (set_prop ''services'' (JObj (set_prop sid newService (spread svcs)))
                      (own_props prev))))"

text \<open>
  The identifier is \<^verbatim>\<open>`${type}-${Date.now()}`\<close>; \<open>now\<close> is the clock's reading in
  milliseconds.
\<close>

definition service_id :: "string \<Rightarrow> int \<Rightarrow> string" where
  "service_id type now = type @ ''-'' @ show_int now"

definition addService_PE :: "string \<Rightarrow> int \<Rightarrow> pipeline_editor \<Rightarrow> js_error + pipeline_editor" where
  "addService_PE type now st =
     (let sid = service_id type now in
      case map_of SERVICE_TYPES type of
        None \<Rightarrow> Inl TypeError
      | Some (label, defaultSpec) \<Rightarrow>
          (case get_prop (Some (spc st)) ''services'' of
             Inl e \<Rightarrow> Inl e
           | Inr svcs \<Rightarrow>
               (case object_entries svcs of
                  Inl e \<Rightarrow> Inl e
                | Inr es \<Rightarrow>
                    let newService =
                      new_service sid type (label @ '' '' @ show_nat (length es + 1))
                        (JObj (own_props defaultSpec)) 100 100
                    in (case add_updater sid newService (spc st) of
                          Inl e \<Rightarrow> Inl e
                        | Inr next \<Rightarrow> Inr (st\<lparr>spc := next, selectedService := Some sid\<rparr>)))))"

text \<open>
  \<^verbatim>\<open>Object.values(spc.services).filter(s => s.type === type).length\<close>: reading
  \<^verbatim>\<open>s.type\<close> throws when \<^verbatim>\<open>s\<close> is \<^verbatim>\<open>null\<close>.
\<close>

fun count_type :: "string \<Rightarrow> json list \<Rightarrow> js_error + nat" where
  "count_type type [] = Inr 0"
| "count_type type (s # ss) =
     (case get_prop (Some s) ''type'' of
        Inl e \<Rightarrow> Inl e
      | Inr t \<Rightarrow>
          (case count_type type ss of
             Inl e \<Rightarrow> Inl e
           | Inr n \<Rightarrow> Inr (if t = Some (JStr type) then Suc n else n)))"

definition addService_EPE ::
  "string \<Rightarrow> int \<Rightarrow> string \<Rightarrow> enhanced_editor \<Rightarrow> js_error + enhanced_editor" where
  "addService_EPE type now ts st =
     (let sid = service_id type now in
      case get_prop (Some (spc st)) ''services'' of
        Inl e \<Rightarrow> Inl e
      | Inr svcs \<Rightarrow>
          (case object_entries svcs of
             Inl e \<Rightarrow> Inl e
           | Inr es \<Rightarrow>
               (case count_type type (map snd es) of
                  Inl e \<Rightarrow> Inl e
                | Inr existingCount \<Rightarrow>
                    let newService =
                      new_service sid type (type @ '' '' @ show_nat (existingCount + 1))
                        (getDefaultSpec type) 300 200
                    in (case add_updater sid newService (spc st) of
                          Inl e \<Rightarrow> Inl e
                        | Inr next \<Rightarrow>
                            Inr (addLog_EPE ''info'' (''Added '' @ type @ '' service: '' @ sid) ts
                                   (st\<lparr>spc := next\<rparr>))))))"

text \<open>The service stored under a key of the document's \<^verbatim>\<open>services\<close>, if any.\<close>

definition service_at :: "json \<Rightarrow> string \<Rightarrow> json option" where
  "service_at doc k =
     (case map_of (own_props doc) ''services'' of
        None \<Rightarrow> None
      | Some svcs \<Rightarrow> map_of (own_props svcs) k)"

section \<open>Running the pipeline\<close>

text \<open>
  One tick of \<^verbatim>\<open>EnhancedPipelineEditor\<close>'s \<^verbatim>\<open>runPipeline\<close> updates the document with
  \<^verbatim>\<open>prev => { const updated = { ...prev };
    Object.keys(updated.services).forEach(id => {
      if (updated.services[id].status === 'running')
        updated.services[id].lastRun = new Date().toISOString(); });
    return updated; }\<close>
  \<open>touch\<close> is the body of the loop for one service, given the clock's reading.
  Only an object can own a \<^verbatim>\<open>status\<close>, so only an object is ever assigned to.
\<close>

definition touch :: "string \<Rightarrow> json \<Rightarrow> js_error + json" where
  "touch stamp s =
     (case get_prop (Some s) ''status'' of
        Inl e \<Rightarrow> Inl e
      | Inr status \<Rightarrow>
          if status = Some (JStr ''running'')
          then Inr (case s of JObj kvs \<Rightarrow> JObj (set_prop ''lastRun'' (JStr stamp) kvs) | _ \<Rightarrow> s)
          else Inr s)"

text \<open>
  The loop over the keys. The clock is read once for each running service: \<open>clock k\<close>
  is the reading taken while the service under key \<open>k\<close> is visited. The first
  exception ends the loop.
\<close>

fun touch_all :: "(string \<Rightarrow> string) \<Rightarrow> (string \<times> json) list \<Rightarrow> js_error + (string \<times> json) list" where
  "touch_all clock [] = Inr []"
| "touch_all clock ((k, s) # rest) =
     (case touch (clock k) s of
        Inl e \<Rightarrow> Inl e
      | Inr s' \<Rightarrow>
          (case touch_all clock rest of
             Inl e \<Rightarrow> Inl e
           | Inr rest' \<Rightarrow> Inr ((k, s') # rest')))"

text \<open>
  The services are assigned to in place, so the container keeps its kind: an object
  stays an object, an array an array; a string, number or boolean has nothing to
  assign to.
\<close>

fun rebuild :: "json \<Rightarrow> (string \<times> json) list \<Rightarrow> json" where
  "rebuild (JObj kvs) es = JObj es"
| "rebuild (JArr xs) es = JArr (map snd es)"
| "rebuild v es = v"

definition tick_updater :: "(string \<Rightarrow> string) \<Rightarrow> json \<Rightarrow> js_error + json" where
  "tick_updater clock prev =
     (let updated = own_props prev in
      case object_entries (map_of updated ''services'') of
        Inl e \<Rightarrow> Inl e
      | Inr es \<Rightarrow>
          (case touch_all clock es of
             Inl e \<Rightarrow> Inl e
           | Inr es' \<Rightarrow>
               Inr (JObj (case map_of updated ''services'' of
                            None \<Rightarrow> updated
                          | Some svcs \<Rightarrow> set_prop ''services'' (rebuild svcs es') updated))))"

text \<open>
  The clock readings of one firing of the interval: the time of the tick's log line,
  the times stamped on the running services, and the time of the completion log line.
\<close>

record tick_clock =
  log_time :: string
  iso_time :: "string \<Rightarrow> string"
  done_time :: string

text \<open>
  \<^verbatim>\<open>runPipeline\<close>, \<^verbatim>\<open>stopPipeline\<close> and \<^verbatim>\<open>tickOnce\<close> of
  \<^verbatim>\<open>EnhancedPipelineEditor\<close>, and one firing of the interval with handle \<open>h\<close>. An
  exception in the state updater unmounts the editor: the result is \<open>Inl\<close>.
\<close>

definition runPipeline_EPE :: "string \<Rightarrow> enhanced_editor \<Rightarrow> enhanced_editor" where
  "runPipeline_EPE ts st =
     (addLog_EPE ''success'' (pic_play @ '' Pipeline execution started'') ts
        (st\<lparr>isRunning := True\<rparr>))
     \<lparr>intervals := intervals st @ [Some 0]\<rparr>"

definition interval_fire :: "nat \<Rightarrow> tick_clock \<Rightarrow> enhanced_editor \<Rightarrow> js_error + enhanced_editor" where
  "interval_fire h c st =
     (if h < length (intervals st) then
        (case intervals st ! h of
           None \<Rightarrow> Inr st
         | Some n \<Rightarrow>
             let tick = n + 1;
                 st1 = addLog_EPE ''info''
                         (pic_zap @ '' Tick '' @ show_nat tick @ '' - Processing services...'')
                         (log_time c) (st\<lparr>intervals := (intervals st)[h := Some tick]\<rparr>)
             in (case tick_updater (iso_time c) (spc st1) of
                   Inl e \<Rightarrow> Inl e
                 | Inr next \<Rightarrow>
                     let st2 = st1\<lparr>spc := next\<rparr>
                     in if tick \<ge> 5
                        then Inr (addLog_EPE ''success''
                                    (pic_check @ '' Pipeline execution completed'') (done_time c)
                                    (st2\<lparr>intervals := (intervals st2)[h := None],
                                         isRunning := False\<rparr>))
                        else Inr st2))
      else Inr st)"

definition stopPipeline_EPE :: "string \<Rightarrow> enhanced_editor \<Rightarrow> enhanced_editor" where
  "stopPipeline_EPE ts st =
     addLog_EPE ''warn'' (pic_stop @ '' Pipeline stopped by user'') ts (st\<lparr>isRunning := False\<rparr>)"

definition tickOnce_EPE :: "string \<Rightarrow> enhanced_editor \<Rightarrow> enhanced_editor" where
  "tickOnce_EPE ts st = addLog_EPE ''info'' (pic_zap @ '' Manual tick executed'') ts st"

text \<open>
  \<^verbatim>\<open>PipelineEditor\<close>: \<^verbatim>\<open>runPipeline\<close> arms one timeout and executes no tick;
  \<open>timeout_fire\<close> is the timeout's callback.
\<close>

definition runPipeline_PE :: "string \<Rightarrow> pipeline_editor \<Rightarrow> pipeline_editor" where
  "runPipeline_PE ts st =
     (addLog_PE ''info'' (pic_play @ '' Pipeline started'') ts (st\<lparr>isRunning := True\<rparr>))
     \<lparr>timeouts := timeouts st + 1\<rparr>"

definition timeout_fire :: "string \<Rightarrow> pipeline_editor \<Rightarrow> pipeline_editor" where
  "timeout_fire ts st =
     (if timeouts st = 0 then st
      else (addLog_PE ''success'' (pic_check @ '' Pipeline executed successfully'') ts st)
             \<lparr>isRunning := False, timeouts := timeouts st - 1\<rparr>)"

definition stopPipeline_PE :: "string \<Rightarrow> pipeline_editor \<Rightarrow> pipeline_editor" where
  "stopPipeline_PE ts st =
     addLog_PE ''warn'' (pic_stop @ '' Pipeline stopped'') ts (st\<lparr>isRunning := False\<rparr>)"

definition tickOnce_PE :: "string \<Rightarrow> pipeline_editor \<Rightarrow> pipeline_editor" where
  "tickOnce_PE ts st = addLog_PE ''info'' (pic_zap @ '' Single tick executed'') ts st"

text \<open>
  A run of \<^verbatim>\<open>EnhancedPipelineEditor\<close>: \<^verbatim>\<open>runPipeline\<close> at time \<open>t0\<close>, then one
  firing of the new interval for each element of \<open>cs\<close>, nothing else in between.
\<close>

fun fire_all :: "nat \<Rightarrow> tick_clock list \<Rightarrow> enhanced_editor \<Rightarrow> js_error + enhanced_editor" where
  "fire_all h [] st = Inr st"
| "fire_all h (c # cs) st =
     (case interval_fire h c st of
        Inl e \<Rightarrow> Inl e
      | Inr st' \<Rightarrow> fire_all h cs st')"

definition run :: "string \<Rightarrow> tick_clock list \<Rightarrow> enhanced_editor \<Rightarrow> js_error + enhanced_editor" where
  "run t0 cs st = fire_all (length (intervals st)) cs (runPipeline_EPE t0 st)"

text \<open>
  What two runs can be compared on when their clocks differ: the document without the
  \<^verbatim>\<open>lastRun\<close> of its running services, and the log without its timestamps.
\<close>

definition is_running :: "json \<Rightarrow> bool" where
  "is_running s = (map_of (own_props s) ''status'' = Some (JStr ''running''))"

definition unstamp_service :: "json \<Rightarrow> json" where
  "unstamp_service s =
     (case s of
        JObj kvs \<Rightarrow>
          if is_running s then JObj (filter (\<lambda>kv. fst kv \<noteq> ''lastRun'') kvs) else s
      | _ \<Rightarrow> s)"

definition unstamp :: "json \<Rightarrow> json" where
  "unstamp doc =
     (case doc of
        JObj kvs \<Rightarrow>
          (case map_of kvs ''services'' of
             Some (JObj svcs) \<Rightarrow>
               JObj (set_prop ''services''
                      (JObj (map (\<lambda>kv. (fst kv, unstamp_service (snd kv))) svcs)) kvs)
           | Some (JArr xs) \<Rightarrow>
               JObj (set_prop ''services'' (JArr (map unstamp_service xs)) kvs)
           | _ \<Rightarrow> doc)
      | _ \<Rightarrow> doc)"

definition untimed :: "log_entry list \<Rightarrow> (string \<times> string) list" where
  "untimed es = map (\<lambda>e. (level e, message_text e)) es"

section \<open>Export\<close>

text \<open>
  \<^verbatim>\<open>exportSPC\<close> serialises the whole state cell with \<^verbatim>\<open>JSON.stringify(spc, null, 2)\<close>
  (a parameter, as \<^verbatim>\<open>JSON.parse\<close> is), then names the download after
  \<^verbatim>\<open>spc.meta.name.replace(/\s+/g, '-')\<close>, lower-cased in \<^verbatim>\<open>PipelineEditor\<close>, and
  clicks the link. Reading \<^verbatim>\<open>name\<close> off a missing \<^verbatim>\<open>meta\<close>, or calling
  \<^verbatim>\<open>replace\<close> on a name that is not a string, throws a \<^verbatim>\<open>TypeError\<close> before the
  click. White space and letter case are those of ASCII.
\<close>

definition is_space :: "char \<Rightarrow> bool" where
  "is_space c = (c \<in> set [CHR '' '', CHR 0x09, CHR 0x0A, CHR 0x0B, CHR 0x0C, CHR 0x0D])"

function replace_ws :: "string \<Rightarrow> string" where
  "replace_ws [] = []"
| "replace_ws (c # cs) =
     (if is_space c then CHR ''-'' # replace_ws (dropWhile is_space cs)
      else c # replace_ws cs)"
  by pat_completeness auto
termination
  by (relation "measure length") (auto simp: less_Suc_eq_le length_dropWhile_le)

definition toLowerCase :: "string \<Rightarrow> string" where
  "toLowerCase s =
     map (\<lambda>c. let n = (of_char c :: nat)
              in if 65 \<le> n \<and> n \<le> 90 then char_of (n + 32) else c) s"

record download =
  file_name :: string
  content :: string

definition export_name :: "json \<Rightarrow> js_error + string" where
  "export_name doc =
     (case get_prop (Some doc) ''meta'' of
        Inl e \<Rightarrow> Inl e
      | Inr meta \<Rightarrow>
          (case get_prop meta ''name'' of
             Inl e \<Rightarrow> Inl e
           | Inr (Some (JStr s)) \<Rightarrow> Inr (replace_ws s)
           | Inr _ \<Rightarrow> Inl TypeError))"

definition exportSPC_PE ::
  "(json \<Rightarrow> string) \<Rightarrow> string \<Rightarrow> pipeline_editor \<Rightarrow> js_error + download \<times> pipeline_editor" where
  "exportSPC_PE JSON_stringify ts st =
     (let text = JSON_stringify (spc st) in
      case export_name (spc st) of
        Inl e \<Rightarrow> Inl e
      | Inr n \<Rightarrow>
          Inr (\<lparr>file_name = toLowerCase n @ ''.spc.json'', content = text\<rparr>,
               addLog_PE ''info'' ''SPC exported successfully'' ts st))"

definition exportSPC_EPE ::
  "(json \<Rightarrow> string) \<Rightarrow> string \<Rightarrow> enhanced_editor \<Rightarrow> js_error + download \<times> enhanced_editor" where
  "exportSPC_EPE JSON_stringify ts st =
     (let text = JSON_stringify (spc st) in
      case export_name (spc st) of
        Inl e \<Rightarrow> Inl e
      | Inr n \<Rightarrow>
          Inr (\<lparr>file_name = n @ ''.spc.json'', content = text\<rparr>,
               addLog_EPE ''success'' (pic_inbox @ '' SPC exported successfully'') ts st))"

section \<open>Initial states and vocabulary of the properties\<close>

text \<open>
  The initial values given to \<^verbatim>\<open>useState\<close>; \<open>created_at\<close> is
  \<^verbatim>\<open>new Date().toISOString()\<close> at mount.
\<close>

definition initial_spc :: "string \<Rightarrow> string \<Rightarrow> json" where
  "initial_spc name created_at =
     JObj [(''spc_version'', JStr ''1.0''),
           (''meta'', JObj [(''name'', JStr name), (''created_at'', JStr created_at)]),
           (''services'', JObj []),
           (''state'', JObj [])]"

definition initial_PE :: "string \<Rightarrow> pipeline_editor" where
  "initial_PE created_at =
     \<lparr>spc = initial_spc ''Untitled Pipeline'' created_at, isRunning = False,
      selectedService = None, executionLog = [], jsonError = None, timeouts = 0\<rparr>"

definition initial_EPE :: "string \<Rightarrow> enhanced_editor" where
  "initial_EPE created_at =
     \<lparr>spc = initial_spc ''My Pipeline'' created_at, isRunning = False,
      selectedNode = None, logs = [], intervals = []\<rparr>"

text \<open>A sequence of \<^verbatim>\<open>addLog\<close> calls, given as (level, message, clock reading).\<close>

fun addLogs_PE :: "(string \<times> string \<times> string) list \<Rightarrow> pipeline_editor \<Rightarrow> pipeline_editor" where
  "addLogs_PE [] st = st"
| "addLogs_PE ((lv, msg, ts) # ls) st = addLogs_PE ls (addLog_PE lv msg ts st)"

fun addLogs_EPE :: "(string \<times> string \<times> string) list \<Rightarrow> enhanced_editor \<Rightarrow> enhanced_editor" where
  "addLogs_EPE [] st = st"
| "addLogs_EPE ((lv, msg, ts) # ls) st = addLogs_EPE ls (addLog_EPE lv msg ts st)"

definition to_entry :: "string \<times> string \<times> string \<Rightarrow> log_entry" where
  "to_entry l = entry (fst l) (fst (snd l)) (snd (snd l))"

text \<open>The document has a property \<open>k\<close> with a truthy value.\<close>

definition has_truthy :: "json \<Rightarrow> string \<Rightarrow> bool" where
  "has_truthy doc k = truthy (map_of (own_props doc) k)"

text \<open>
  The document has a \<^verbatim>\<open>services\<close> property that is neither \<^verbatim>\<open>undefined\<close> nor
  \<^verbatim>\<open>null\<close>, and none of the services is \<^verbatim>\<open>null\<close>: the documents on which the
  state update of a tick throws nothing.
\<close>

definition has_services :: "json \<Rightarrow> bool" where
  "has_services doc =
     (case map_of (own_props doc) ''services'' of
        None \<Rightarrow> False
      | Some svcs \<Rightarrow> svcs \<noteq> JNull)"

definition tickable :: "json \<Rightarrow> bool" where
  "tickable doc =
     (case map_of (own_props doc) ''services'' of
        None \<Rightarrow> False
      | Some svcs \<Rightarrow> svcs \<noteq> JNull \<and> list_all (\<lambda>kv. snd kv \<noteq> JNull) (own_props svcs))"

text \<open>No service of the document has status \<^verbatim>\<open>running\<close>.\<close>

definition none_running :: "json \<Rightarrow> bool" where
  "none_running doc =
     (case map_of (own_props doc) ''services'' of
        None \<Rightarrow> True
      | Some svcs \<Rightarrow> list_all (\<lambda>kv. \<not> is_running (snd kv)) (own_props svcs))"

text \<open>
  What \<open>touch\<close> and \<open>touch_all\<close> return when they throw nothing.
\<close>

definition touched :: "string \<Rightarrow> json \<Rightarrow> json" where
  "touched stamp s =
     (if is_running s
      then (case s of JObj kvs \<Rightarrow> JObj (set_prop ''lastRun'' (JStr stamp) kvs) | _ \<Rightarrow> s)
      else s)"

definition touched_all :: "(string \<Rightarrow> string) \<Rightarrow> (string \<times> json) list \<Rightarrow> (string \<times> json) list" where
  "touched_all clock es = map (\<lambda>kv. (fst kv, touched (clock (fst kv)) (snd kv))) es"

text \<open>
  Two editors that differ at most in clock readings, and two outcomes of a run that do.
\<close>

definition similar :: "enhanced_editor \<Rightarrow> enhanced_editor \<Rightarrow> bool" where
  "similar a b =
     (unstamp (spc a) = unstamp (spc b) \<and> untimed (logs a) = untimed (logs b) \<and>
      isRunning a = isRunning b \<and> intervals a = intervals b \<and>
      selectedNode a = selectedNode b)"

fun same_outcome :: "js_error + enhanced_editor \<Rightarrow> js_error + enhanced_editor \<Rightarrow> bool" where
  "same_outcome (Inl e) (Inl e') = (e = e')"
| "same_outcome (Inr a) (Inr b) = similar a b"
| "same_outcome (Inl e) (Inr b) = False"
| "same_outcome (Inr a) (Inl e') = False"

section \<open>Example documents\<close>

text \<open>
  A document with a version that no schema knows and a connector whose spec has none
  of a connector's fields.
\<close>

definition unchecked_doc :: json where
  "unchecked_doc =
     JObj [(''spc_version'', JStr ''banana''),
           (''services'',
              JObj [(''c1'', JObj [(''id'', JStr ''c1''), (''type'', JStr ''connector''),
                                   (''spec'', JObj [(''secrets'', JNum 7)]),
                                   (''status'', JStr ''running'')])])]"

text \<open>
  A document with a running connector, added at clock reading 7 and edited since, and
  a stopped adapter.
\<close>

definition crowded_spc :: json where
  "crowded_spc =
     JObj [(''spc_version'', JStr ''1.0''),
           (''meta'', JObj [(''name'', JStr ''Orders'')]),
           (''services'',
              JObj [(''connector-7'',
                       JObj [(''id'', JStr ''connector-7''), (''type'', JStr ''connector''),
                             (''title'', JStr ''Orders feed''),
                             (''spec'', JObj [(''url'', JStr ''https://orders.example.com''),
                                              (''outputKey'', JStr ''orders'')]),
                             (''status'', JStr ''running'')]),
                    (''adapter-9'',
                       JObj [(''id'', JStr ''adapter-9''), (''type'', JStr ''adapter''),
                             (''title'', JStr ''Adapter 2''),
                             (''spec'', JObj [(''kind'', JStr ''webhook''), (''url'', JStr [])]),
                             (''status'', JStr ''stopped'')])]),
           (''state'', JObj [])]"

definition crowded_EPE :: enhanced_editor where
  "crowded_EPE = (initial_EPE ''2024-01-01T00:00:00.000Z'')\<lparr>spc := crowded_spc\<rparr>"

text \<open>A document that passes \<^verbatim>\<open>PipelineEditor\<close>'s import check and has no name.\<close>

definition nameless_doc :: json where
  "nameless_doc =
     JObj [(''spc_version'', JStr ''1.0''), (''meta'', JObj []), (''services'', JObj []),
           (''state'', JObj [])]"

text \<open>Two readings of the clock for one tick, seven milliseconds apart.\<close>

definition clock_a :: tick_clock where
  "clock_a = \<lparr>log_time = ''10:00:01'', iso_time = (\<lambda>k. ''2024-01-01T10:00:01.000Z''),
              done_time = ''10:00:01''\<rparr>"

definition clock_b :: tick_clock where
  "clock_b = \<lparr>log_time = ''10:00:01'', iso_time = (\<lambda>k. ''2024-01-01T10:00:01.007Z''),
              done_time = ''10:00:01''\<rparr>"

section \<open>Properties of the log\<close>

lemma slice_last_length: "length (slice_last n xs) = min n (length xs)"
  by (simp add: slice_last_def)

lemma slice_last_append_slice:
  "slice_last n (slice_last n xs @ ys) = slice_last n (xs @ ys)"
proof (cases "length xs \<le> n")
  case True
  then show ?thesis by (simp add: slice_last_def)
next
  case False
  then have "length xs + length ys - n = length ys + (length xs - n)" by arith
  with False show ?thesis by (simp add: slice_last_def)
qed

lemma push_logs_eq: "push_logs cap es (slice_last cap xs) = slice_last cap (xs @ es)"
proof (induction es arbitrary: xs)
  case Nil
  show ?case by (simp add: slice_last_def)
next
  case (Cons e es)
  have "push_log cap e (slice_last cap xs) = slice_last cap (xs @ [e])"
    by (simp add: push_log_def slice_last_append_slice)
  then show ?case
    using Cons.IH [of "xs @ [e]"] by simp
qed

lemma push_logs_Cons: "push_logs cap (e # es) prev = slice_last cap (prev @ e # es)"
  using push_logs_eq [of cap es "prev @ [e]"] by (simp add: push_log_def)

lemma last_push_log: "0 < cap \<Longrightarrow> last (push_log cap e prev) = e"
  by (simp add: push_log_def slice_last_def)

lemma addLogs_PE_log:
  "executionLog (addLogs_PE ls st) = push_logs log_cap_PE (map to_entry ls) (executionLog st)"
  by (induction ls st rule: addLogs_PE.induct) (simp_all add: addLog_PE_def to_entry_def)

lemma addLogs_EPE_log:
  "logs (addLogs_EPE ls st) = push_logs log_cap_EPE (map to_entry ls) (logs st)"
  by (induction ls st rule: addLogs_EPE.induct) (simp_all add: addLog_EPE_def to_entry_def)

text \<open>
  Claim C10. The execution log is bounded. After one or more \<^verbatim>\<open>addLog\<close> calls the
  log is the old log followed by the new entries in the order of the calls, cut down
  to its last 50 entries in \<^verbatim>\<open>PipelineEditor\<close> and its last 30 in
  \<^verbatim>\<open>EnhancedPipelineEditor\<close>: what is dropped is a prefix, the oldest entries, and
  the log never holds more than the cap.
\<close>

theorem log_bounded:
  "executionLog (addLogs_PE (l # ls) st) =
     drop (length (executionLog st @ map to_entry (l # ls)) - 50)
       (executionLog st @ map to_entry (l # ls))
   \<and> length (executionLog (addLogs_PE (l # ls) st)) \<le> 50
   \<and> logs (addLogs_EPE (l # ls) st') =
       drop (length (logs st' @ map to_entry (l # ls)) - 30)
         (logs st' @ map to_entry (l # ls))
   \<and> length (logs (addLogs_EPE (l # ls) st')) \<le> 30"
proof -
  have pe: "executionLog (addLogs_PE (l # ls) st) =
      slice_last 50 (executionLog st @ map to_entry (l # ls))"
    by (simp only: addLogs_PE_log list.map push_logs_Cons log_cap_PE_def)
  have epe: "logs (addLogs_EPE (l # ls) st') =
      slice_last 30 (logs st' @ map to_entry (l # ls))"
    by (simp only: addLogs_EPE_log list.map push_logs_Cons log_cap_EPE_def)
  have "length (executionLog (addLogs_PE (l # ls) st)) \<le> 50"
    by (simp only: pe slice_last_length min.cobounded1)
  moreover have "length (logs (addLogs_EPE (l # ls) st')) \<le> 30"
    by (simp only: epe slice_last_length min.cobounded1)
  ultimately show ?thesis
    using pe epe by (simp add: slice_last_def)
qed

section \<open>Properties of import\<close>

lemma get_prop_Some:
  "get_prop (Some v) k = (if v = JNull then Inl TypeError else Inr (map_of (own_props v) k))"
  by (cases v) simp_all

lemma load_PE_Inr_iff:
  "load_PE P text = Inr d \<longleftrightarrow>
     P text = Inr d \<and> has_truthy d ''spc_version'' \<and> has_truthy d ''services''"
proof (cases "P text")
  case (Inl e)
  then show ?thesis by (simp add: load_PE_def)
next
  case (Inr imported)
  show ?thesis
  proof (cases "imported = JNull")
    case True
    with Inr show ?thesis by (auto simp: load_PE_def has_truthy_def)
  next
    case False
    with Inr show ?thesis by (auto simp: load_PE_def has_truthy_def get_prop_Some)
  qed
qed

lemma load_PE_cases: "(\<exists>e. load_PE P text = Inl e) \<or> (\<exists>d. load_PE P text = Inr d)"
  by (cases "load_PE P text") auto

lemma jsonError_importSPC_PE:
  "jsonError (importSPC_PE P (Some text) ts st) =
     (case load_PE P text of Inl e \<Rightarrow> Some (message e) | Inr d \<Rightarrow> None)"
  by (simp add: importSPC_PE_def addLog_PE_def split: sum.splits)

lemma last_log_importSPC_EPE:
  "last (logs (importSPC_EPE P (Some text) ts st)) =
     (case P text of
        Inl e \<Rightarrow> entry ''error'' (''Import failed: '' @ message e) ts
      | Inr d \<Rightarrow> entry ''success'' (pic_outbox @ '' SPC imported successfully'') ts)"
  by (simp add: importSPC_EPE_def load_EPE_def addLog_EPE_def last_push_log log_cap_EPE_def
      split: sum.splits)

text \<open>
  Claim C1, as the code has it. \<^verbatim>\<open>PipelineEditor\<close> accepts an import exactly when the
  text parses to a value whose \<^verbatim>\<open>spc_version\<close> and \<^verbatim>\<open>services\<close> are both present
  and truthy; the version's value and the services' specs are not looked at.
  \<^verbatim>\<open>EnhancedPipelineEditor\<close> rejects an import exactly when the text does not parse.
\<close>

theorem import_accepts_iff:
  "(jsonError (importSPC_PE P (Some text) ts st) = None) =
     (\<exists>d. P text = Inr d \<and> has_truthy d ''spc_version'' \<and> has_truthy d ''services'')
   \<and> (level (last (logs (importSPC_EPE P (Some text) ts st'))) = ''error'') =
       (\<exists>e. P text = Inl e)"
proof -
  have "(jsonError (importSPC_PE P (Some text) ts st) = None) = (\<exists>d. load_PE P text = Inr d)"
    by (simp add: jsonError_importSPC_PE split: sum.splits)
  also have "\<dots> = (\<exists>d. P text = Inr d \<and> has_truthy d ''spc_version'' \<and> has_truthy d ''services'')"
    by (simp add: load_PE_Inr_iff)
  finally have pe: "(jsonError (importSPC_PE P (Some text) ts st) = None) =
     (\<exists>d. P text = Inr d \<and> has_truthy d ''spc_version'' \<and> has_truthy d ''services'')" .
  have epe: "(level (last (logs (importSPC_EPE P (Some text) ts st'))) = ''error'') =
       (\<exists>e. P text = Inl e)"
    by (cases "P text") (simp_all add: last_log_importSPC_EPE entry_def)
  from pe epe show ?thesis by simp
qed

text \<open>
  Claim C1 as stated fails: \<^verbatim>\<open>PipelineEditor\<close> accepts a document with an unknown
  version and a connector spec without a connector's fields, and
  \<^verbatim>\<open>EnhancedPipelineEditor\<close> accepts the empty object, which has neither
  \<^verbatim>\<open>spc_version\<close> nor \<^verbatim>\<open>services\<close>.
\<close>

theorem import_accepts_unchecked:
  "spc (importSPC_PE (\<lambda>t. Inr unchecked_doc) (Some ''file'') ''09:00:00''
          (initial_PE ''2024-01-01T00:00:00.000Z'')) = unchecked_doc
   \<and> jsonError (importSPC_PE (\<lambda>t. Inr unchecked_doc) (Some ''file'') ''09:00:00''
          (initial_PE ''2024-01-01T00:00:00.000Z'')) = None
   \<and> spc (importSPC_EPE (\<lambda>t. Inr (JObj [])) (Some ''{}'') ''09:00:00''
          (initial_EPE ''2024-01-01T00:00:00.000Z'')) = JObj []
   \<and> level (last (logs (importSPC_EPE (\<lambda>t. Inr (JObj [])) (Some ''{}'') ''09:00:00''
          (initial_EPE ''2024-01-01T00:00:00.000Z'')))) = ''success''"
  by (simp add: importSPC_PE_def importSPC_EPE_def load_PE_def load_EPE_def unchecked_doc_def
      addLog_PE_def addLog_EPE_def push_log_def slice_last_def entry_def initial_EPE_def
      log_cap_EPE_def)

text \<open>
  Claim C4. An import that passes the editor's validation replaces the document
  wholesale: whatever the prior state, the new document is the imported value.
  (\<^verbatim>\<open>EnhancedPipelineEditor\<close> validates nothing beyond parsing.)
\<close>

theorem import_replaces:
  "P text = Inr d \<Longrightarrow>
     (has_truthy d ''spc_version'' \<and> has_truthy d ''services'' \<longrightarrow>
        spc (importSPC_PE P (Some text) ts st) = d
        \<and> jsonError (importSPC_PE P (Some text) ts st) = None)
     \<and> spc (importSPC_EPE P (Some text) ts st') = d"
proof -
  assume p: "P text = Inr d"
  have "spc (importSPC_EPE P (Some text) ts st') = d"
    using p by (simp add: importSPC_EPE_def load_EPE_def addLog_EPE_def)
  moreover have "spc (importSPC_PE P (Some text) ts st) = d
      \<and> jsonError (importSPC_PE P (Some text) ts st) = None"
    if "has_truthy d ''spc_version''" "has_truthy d ''services''"
  proof -
    from p that have "load_PE P text = Inr d" by (simp add: load_PE_Inr_iff)
    then show ?thesis by (simp add: importSPC_PE_def addLog_PE_def)
  qed
  ultimately show ?thesis by blast
qed

theorem import_replaces_witness:
  "spc (importSPC_PE (\<lambda>t. Inr unchecked_doc) (Some ''file'') ''09:00:00''
          ((initial_PE ''2024-01-01T00:00:00.000Z'')\<lparr>isRunning := True\<rparr>)) = unchecked_doc
   \<and> spc (importSPC_EPE (\<lambda>t. Inr unchecked_doc) (Some ''file'') ''09:00:00''
          (initial_EPE ''2024-01-01T00:00:00.000Z'')) = unchecked_doc"
  using import_replaces [of "\<lambda>t. Inr unchecked_doc" "''file''" unchecked_doc "''09:00:00''"
      "(initial_PE ''2024-01-01T00:00:00.000Z'')\<lparr>isRunning := True\<rparr>"
      "initial_EPE ''2024-01-01T00:00:00.000Z''"]
  by (simp add: has_truthy_def unchecked_doc_def)

text \<open>
  Claim C5. When the import fails (the text does not parse, or, in
  \<^verbatim>\<open>PipelineEditor\<close>, the parsed value fails the check), the document, the running
  flag and the pending timers are what they were, and the failure is reported: the last
  log entry is an error carrying the exception's message, and \<^verbatim>\<open>PipelineEditor\<close> also
  stores the message in \<^verbatim>\<open>jsonError\<close>.
\<close>

theorem failed_import_keeps_document:
  "(load_PE P text = Inl e \<longrightarrow>
      spc (importSPC_PE P (Some text) ts st) = spc st
      \<and> isRunning (importSPC_PE P (Some text) ts st) = isRunning st
      \<and> timeouts (importSPC_PE P (Some text) ts st) = timeouts st
      \<and> selectedService (importSPC_PE P (Some text) ts st) = selectedService st
      \<and> jsonError (importSPC_PE P (Some text) ts st) = Some (message e)
      \<and> last (executionLog (importSPC_PE P (Some text) ts st)) =
          entry ''error'' (''Import failed: '' @ message e) ts)
   \<and> (load_EPE P' text' = Inl e' \<longrightarrow>
      spc (importSPC_EPE P' (Some text') ts st') = spc st'
      \<and> isRunning (importSPC_EPE P' (Some text') ts st') = isRunning st'
      \<and> intervals (importSPC_EPE P' (Some text') ts st') = intervals st'
      \<and> selectedNode (importSPC_EPE P' (Some text') ts st') = selectedNode st'
      \<and> last (logs (importSPC_EPE P' (Some text') ts st')) =
          entry ''error'' (''Import failed: '' @ message e') ts)"
  by (simp add: importSPC_PE_def importSPC_EPE_def addLog_PE_def addLog_EPE_def
      last_push_log log_cap_PE_def log_cap_EPE_def)

theorem failed_import_keeps_document_witness:
  "load_PE (\<lambda>t. Inr (JObj [(''spc_version'', JStr ''1.0'')])) ''file'' =
      Inl (Error ''Invalid SPC format'')
   \<and> spc (importSPC_PE (\<lambda>t. Inr (JObj [(''spc_version'', JStr ''1.0'')])) (Some ''file'')
        ''09:00:00'' (initial_PE ''2024-01-01T00:00:00.000Z''))
      = initial_spc ''Untitled Pipeline'' ''2024-01-01T00:00:00.000Z''
   \<and> jsonError (importSPC_PE (\<lambda>t. Inr (JObj [(''spc_version'', JStr ''1.0'')])) (Some ''file'')
        ''09:00:00'' (initial_PE ''2024-01-01T00:00:00.000Z'')) = Some ''Invalid SPC format''
   \<and> load_EPE (\<lambda>t. Inl (SyntaxError ''Unexpected end of JSON input'')) ''{'' =
      Inl (SyntaxError ''Unexpected end of JSON input'')
   \<and> spc (importSPC_EPE (\<lambda>t. Inl (SyntaxError ''Unexpected end of JSON input'')) (Some ''{'')
        ''09:00:00'' (initial_EPE ''2024-01-01T00:00:00.000Z''))
      = initial_spc ''My Pipeline'' ''2024-01-01T00:00:00.000Z''"
proof -
  have l1: "load_PE (\<lambda>t. Inr (JObj [(''spc_version'', JStr ''1.0'')])) ''file'' =
      Inl (Error ''Invalid SPC format'')"
    by (simp add: load_PE_def)
  have l2: "load_EPE (\<lambda>t. Inl (SyntaxError ''Unexpected end of JSON input'')) ''{'' =
      Inl (SyntaxError ''Unexpected end of JSON input'')"
    by (simp add: load_EPE_def)
  show ?thesis
    using l1 l2
      failed_import_keeps_document [of "\<lambda>t. Inr (JObj [(''spc_version'', JStr ''1.0'')])"
        "''file''" "Error ''Invalid SPC format''" "''09:00:00''"
        "initial_PE ''2024-01-01T00:00:00.000Z''"
        "\<lambda>t. Inl (SyntaxError ''Unexpected end of JSON input'')" "''{''"
        "SyntaxError ''Unexpected end of JSON input''"
        "initial_EPE ''2024-01-01T00:00:00.000Z''"]
    by (simp add: message_def initial_PE_def initial_EPE_def)
qed

section \<open>Properties of objects and index keys\<close>

lemma map_of_set_prop:
  "map_of (set_prop k v kvs) k' = (if k' = k then Some v else map_of kvs k')"
  by (induction kvs) auto

lemma set_prop_twice: "set_prop k v (set_prop k w kvs) = set_prop k v kvs"
  by (induction kvs) auto

lemma set_prop_same: "map_of kvs k = Some v \<Longrightarrow> set_prop k v kvs = kvs"
  by (induction kvs) (auto split: if_splits)

lemma object_entries_Some: "v \<noteq> JNull \<Longrightarrow> object_entries (Some v) = Inr (own_props v)"
  by (cases v) simp_all

lemma digit_mem: "d < 10 \<Longrightarrow> digit d \<in> set ''0123456789''"
  unfolding digit_def by (rule nth_mem) simp

lemma show_nat_digits: "set (show_nat n) \<subseteq> set ''0123456789''"
proof (induction n rule: show_nat.induct)
  case (1 n)
  show ?case
  proof (cases "n < 10")
    case True
    then show ?thesis using digit_mem [of n] by (subst show_nat.simps) simp
  next
    case False
    have "n mod 10 < 10" by simp
    then have "digit (n mod 10) \<in> set ''0123456789''" by (rule digit_mem)
    with False 1 show ?thesis by (subst show_nat.simps) simp
  qed
qed

lemma show_nat_not_services: "show_nat n \<noteq> ''services''"
proof
  assume "show_nat n = ''services''"
  then have "CHR ''s'' \<in> set (show_nat n)" by simp
  with show_nat_digits [of n] show False by auto
qed

lemma indexed_no_services: "map_of (indexed xs) ''services'' = None"
proof -
  have "''services'' \<notin> set (map show_nat [0..<length xs])"
  proof
    assume "''services'' \<in> set (map show_nat [0..<length xs])"
    then obtain i where "show_nat i = ''services''" by auto
    with show_nat_not_services show False by blast
  qed
  then show ?thesis
    by (simp add: indexed_def map_of_zip_is_None)
qed

section \<open>Properties of adding a service\<close>

lemma service_types_spread:
  "map_of SERVICE_TYPES type = Some (label, dspec) \<Longrightarrow> JObj (own_props dspec) = dspec"
  by (auto simp: SERVICE_TYPES_def split: if_splits)

lemma add_updater_service_at:
  assumes "has_services prev"
  shows "\<exists>next. add_updater sid new prev = Inr next \<and>
           (\<forall>k. service_at next k = (if k = sid then Some new else service_at prev k))"
proof -
  from assms obtain svcs where
    s: "map_of (own_props prev) ''services'' = Some svcs" "svcs \<noteq> JNull"
    by (auto simp: has_services_def split: option.splits)
  then have "prev \<noteq> JNull" by auto
  with s show ?thesis
    by (simp add: add_updater_def get_prop_Some service_at_def map_of_set_prop)
qed

lemma count_type_total:
  "list_all (\<lambda>s. s \<noteq> JNull) ss \<Longrightarrow> \<exists>n. count_type type ss = Inr n"
  by (induction ss) (auto simp: get_prop_Some)

text \<open>
  Claim C9, as the code has it. On a document that has \<^verbatim>\<open>services\<close> (and, for
  \<^verbatim>\<open>EnhancedPipelineEditor\<close>, no \<^verbatim>\<open>null\<close> among them), adding a service of a
  supported type succeeds and stores the new service under its own \<^verbatim>\<open>id\<close>, stopped,
  with the default spec of its type; every entry under a different key is what it was.
\<close>

theorem addService_stores:
  "(map_of SERVICE_TYPES type = Some (label, dspec) \<and> has_services (spc st) \<longrightarrow>
      (\<exists>st' svc. addService_PE type now st = Inr st'
         \<and> service_at (spc st') (service_id type now) = Some svc
         \<and> map_of (own_props svc) ''id'' = Some (JStr (service_id type now))
         \<and> map_of (own_props svc) ''status'' = Some (JStr ''stopped'')
         \<and> map_of (own_props svc) ''spec'' = Some dspec
         \<and> (\<forall>k. k \<noteq> service_id type now \<longrightarrow>
               service_at (spc st') k = service_at (spc st) k)))
   \<and> (type' \<in> set SERVICE_CONFIGS \<and> tickable (spc st2) \<longrightarrow>
      (\<exists>st' svc. addService_EPE type' now ts st2 = Inr st'
         \<and> service_at (spc st') (service_id type' now) = Some svc
         \<and> map_of (own_props svc) ''id'' = Some (JStr (service_id type' now))
         \<and> map_of (own_props svc) ''status'' = Some (JStr ''stopped'')
         \<and> map_of (own_props svc) ''spec'' = Some (getDefaultSpec type')
         \<and> (\<forall>k. k \<noteq> service_id type' now \<longrightarrow>
               service_at (spc st') k = service_at (spc st2) k)))"
proof (intro conjI impI)
  assume a: "map_of SERVICE_TYPES type = Some (label, dspec) \<and> has_services (spc st)"
  then obtain svcs where
    s: "map_of (own_props (spc st)) ''services'' = Some svcs" "svcs \<noteq> JNull"
    by (auto simp: has_services_def split: option.splits)
  then have nn: "spc st \<noteq> JNull" by auto
  define new where "new = new_service (service_id type now) type
      (label @ '' '' @ show_nat (length (own_props svcs) + 1)) (JObj (own_props dspec)) 100 100"
  from a add_updater_service_at [of "spc st" "service_id type now" new]
  obtain nxt where n: "add_updater (service_id type now) new (spc st) = Inr nxt"
    "\<And>k. service_at nxt k = (if k = service_id type now then Some new else service_at (spc st) k)"
    by blast
  have run: "addService_PE type now st =
      Inr (st\<lparr>spc := nxt, selectedService := Some (service_id type now)\<rparr>)"
    using a s nn n(1)
    by (simp add: addService_PE_def get_prop_Some object_entries_Some new_def)
  have spec: "JObj (own_props dspec) = dspec"
    using a service_types_spread by blast
  show "\<exists>st' svc. addService_PE type now st = Inr st'
         \<and> service_at (spc st') (service_id type now) = Some svc
         \<and> map_of (own_props svc) ''id'' = Some (JStr (service_id type now))
         \<and> map_of (own_props svc) ''status'' = Some (JStr ''stopped'')
         \<and> map_of (own_props svc) ''spec'' = Some dspec
         \<and> (\<forall>k. k \<noteq> service_id type now \<longrightarrow>
               service_at (spc st') k = service_at (spc st) k)"
    by (rule exI [of _ "st\<lparr>spc := nxt, selectedService := Some (service_id type now)\<rparr>"],
        rule exI [of _ new])
       (simp add: run n(2) new_def new_service_def spec)
next
  assume a: "type' \<in> set SERVICE_CONFIGS \<and> tickable (spc st2)"
  then obtain svcs where
    s: "map_of (own_props (spc st2)) ''services'' = Some svcs" "svcs \<noteq> JNull"
      "list_all (\<lambda>kv. snd kv \<noteq> JNull) (own_props svcs)"
    by (auto simp: tickable_def split: option.splits)
  then have nn: "spc st2 \<noteq> JNull" by auto
  from s have hs: "has_services (spc st2)" by (simp add: has_services_def)
  from s(3) have "list_all (\<lambda>s. s \<noteq> JNull) (map snd (own_props svcs))"
    by (simp add: list_all_iff)
  then obtain c where c: "count_type type' (map snd (own_props svcs)) = Inr c"
    using count_type_total by blast
  define new where "new = new_service (service_id type' now) type'
      (type' @ '' '' @ show_nat (c + 1)) (getDefaultSpec type') 300 200"
  from hs add_updater_service_at [of "spc st2" "service_id type' now" new]
  obtain nxt where n: "add_updater (service_id type' now) new (spc st2) = Inr nxt"
    "\<And>k. service_at nxt k =
       (if k = service_id type' now then Some new else service_at (spc st2) k)"
    by blast
  have run: "addService_EPE type' now ts st2 =
      Inr (addLog_EPE ''info'' (''Added '' @ type' @ '' service: '' @ service_id type' now) ts
             (st2\<lparr>spc := nxt\<rparr>))"
    using s nn n(1) c
    by (simp add: addService_EPE_def get_prop_Some object_entries_Some new_def)
  show "\<exists>st' svc. addService_EPE type' now ts st2 = Inr st'
         \<and> service_at (spc st') (service_id type' now) = Some svc
         \<and> map_of (own_props svc) ''id'' = Some (JStr (service_id type' now))
         \<and> map_of (own_props svc) ''status'' = Some (JStr ''stopped'')
         \<and> map_of (own_props svc) ''spec'' = Some (getDefaultSpec type')
         \<and> (\<forall>k. k \<noteq> service_id type' now \<longrightarrow>
               service_at (spc st') k = service_at (spc st2) k)"
    by (rule exI [of _ "addLog_EPE ''info''
             (''Added '' @ type' @ '' service: '' @ service_id type' now) ts
             (st2\<lparr>spc := nxt\<rparr>)"], rule exI [of _ new])
       (simp add: run n(2) new_def new_service_def addLog_EPE_def)
qed

theorem addService_stores_witness:
  "(\<exists>st' svc. addService_PE ''monitor'' 7
         ((initial_PE ''2024-01-01T00:00:00.000Z'')\<lparr>spc := crowded_spc\<rparr>) = Inr st'
       \<and> service_at (spc st') ''monitor-7'' = Some svc
       \<and> map_of (own_props svc) ''status'' = Some (JStr ''stopped'')
       \<and> map_of (own_props svc) ''spec'' =
           Some (JObj [(''checks'', JArr []), (''emit'', JStr ''onChange'')])
       \<and> service_at (spc st') ''connector-7'' = service_at crowded_spc ''connector-7'')
   \<and> (\<exists>st' svc. addService_EPE ''vault'' 7 ''09:00:00''
         ((initial_EPE ''2024-01-01T00:00:00.000Z'')\<lparr>spc := crowded_spc\<rparr>) = Inr st'
       \<and> service_at (spc st') ''vault-7'' = Some svc
       \<and> map_of (own_props svc) ''status'' = Some (JStr ''stopped'')
       \<and> map_of (own_props svc) ''spec'' = Some (getDefaultSpec ''vault'')
       \<and> service_at (spc st') ''connector-7'' = service_at crowded_spc ''connector-7'')"
proof -
  let ?pe = "(initial_PE ''2024-01-01T00:00:00.000Z'')\<lparr>spc := crowded_spc\<rparr>"
  let ?epe = "(initial_EPE ''2024-01-01T00:00:00.000Z'')\<lparr>spc := crowded_spc\<rparr>"
  have h1: "map_of SERVICE_TYPES ''monitor'' =
      Some (''Monitor'', JObj [(''checks'', JArr []), (''emit'', JStr ''onChange'')])"
    by (simp add: SERVICE_TYPES_def)
  have h2: "has_services (spc ?pe)" "tickable (spc ?epe)"
    by (simp_all add: has_services_def tickable_def crowded_spc_def)
  have h3: "''vault'' \<in> set SERVICE_CONFIGS" by (simp add: SERVICE_CONFIGS_def)
  have ids: "service_id ''monitor'' 7 = ''monitor-7''" "service_id ''vault'' 7 = ''vault-7''"
    by (simp_all add: service_id_def show_int_def show_nat.simps digit_def)
  have ne: "''connector-7'' \<noteq> ''monitor-7''" "''connector-7'' \<noteq> ''vault-7''" by simp_all
  note inst = addService_stores [of "''monitor''" "''Monitor''"
        "JObj [(''checks'', JArr []), (''emit'', JStr ''onChange'')]" ?pe 7
        "''vault''" ?epe "''09:00:00''", unfolded ids]
  from inst h1 h2(1) obtain st' svc where
    a: "addService_PE ''monitor'' 7 ?pe = Inr st'"
       "service_at (spc st') ''monitor-7'' = Some svc"
       "map_of (own_props svc) ''status'' = Some (JStr ''stopped'')"
       "map_of (own_props svc) ''spec'' =
          Some (JObj [(''checks'', JArr []), (''emit'', JStr ''onChange'')])"
       "\<forall>k. k \<noteq> ''monitor-7'' \<longrightarrow> service_at (spc st') k = service_at (spc ?pe) k"
    by blast
  from inst h3 h2(2) obtain st2' svc2 where
    b: "addService_EPE ''vault'' 7 ''09:00:00'' ?epe = Inr st2'"
       "service_at (spc st2') ''vault-7'' = Some svc2"
       "map_of (own_props svc2) ''status'' = Some (JStr ''stopped'')"
       "map_of (own_props svc2) ''spec'' = Some (getDefaultSpec ''vault'')"
       "\<forall>k. k \<noteq> ''vault-7'' \<longrightarrow> service_at (spc st2') k = service_at (spc ?epe) k"
    by blast
  from a(5) ne(1)
  have a5: "service_at (spc st') ''connector-7'' = service_at crowded_spc ''connector-7''"
    by simp
  from b(5) ne(2)
  have b5: "service_at (spc st2') ''connector-7'' = service_at crowded_spc ''connector-7''"
    by simp
  from a(1-4) a5 b(1-4) b5 show ?thesis by blast
qed

text \<open>
  Claim C9 as stated fails when the generated identifier is already a key: a
  connector added at clock reading 7 replaces the existing entry \<^verbatim>\<open>connector-7\<close>.
\<close>

theorem addService_overwrites:
  "\<exists>st'. addService_PE ''connector'' 7
           ((initial_PE ''2024-01-01T00:00:00.000Z'')\<lparr>spc := crowded_spc\<rparr>) = Inr st'
     \<and> service_at (spc st') ''connector-7'' \<noteq> service_at crowded_spc ''connector-7''"
proof -
  have sid: "service_id ''connector'' 7 = ''connector-7''"
    by (simp add: service_id_def show_int_def show_nat.simps digit_def)
  show ?thesis
    by (simp add: addService_PE_def sid SERVICE_TYPES_def crowded_spc_def add_updater_def
        service_at_def new_service_def Let_def)
qed

section \<open>Properties of a tick\<close>

lemma touch_eq:
  "touch stamp s = (if s = JNull then Inl TypeError else Inr (touched stamp s))"
  by (simp add: touch_def touched_def get_prop_Some is_running_def)

lemma touch_all_eq:
  "touch_all clock es =
     (if list_all (\<lambda>kv. snd kv \<noteq> JNull) es then Inr (touched_all clock es) else Inl TypeError)"
  by (induction es) (auto simp: touch_eq touched_all_def)

lemma touched_not_null: "s \<noteq> JNull \<Longrightarrow> touched stamp s \<noteq> JNull"
  by (cases s) (simp_all add: touched_def)

lemma touched_idle: "\<not> is_running s \<Longrightarrow> touched stamp s = s"
  by (simp add: touched_def)

lemma is_running_touched: "is_running (touched stamp s) = is_running s"
  by (cases s) (simp_all add: touched_def is_running_def map_of_set_prop)

lemma filter_set_prop:
  "filter (\<lambda>kv. fst kv \<noteq> k) (set_prop k v kvs) = filter (\<lambda>kv. fst kv \<noteq> k) kvs"
  by (induction kvs) auto

lemma unstamp_service_touched: "unstamp_service (touched stamp s) = unstamp_service s"
proof (cases "is_running s")
  case False
  then show ?thesis by (simp add: touched_idle)
next
  case True
  show ?thesis
  proof (cases s)
    case (JObj kvs)
    with True have "is_running (JObj (set_prop ''lastRun'' (JStr stamp) kvs))"
      using is_running_touched [of stamp s] by (simp add: touched_def)
    with True JObj show ?thesis
      by (simp add: touched_def unstamp_service_def filter_set_prop)
  qed (simp_all add: touched_def)
qed

lemma map_of_touched_all:
  "map_of (touched_all clock es) k = map_option (touched (clock k)) (map_of es k)"
  by (induction es) (auto simp: touched_all_def)

lemma touched_all_fst: "map fst (touched_all clock es) = map fst es"
  by (simp add: touched_all_def comp_def)

lemma touched_all_nonnull:
  "list_all (\<lambda>kv. snd kv \<noteq> JNull) es \<Longrightarrow> list_all (\<lambda>kv. snd kv \<noteq> JNull) (touched_all clock es)"
  by (simp add: touched_all_def list_all_iff touched_not_null)

lemma indexed_touched_all:
  "indexed (map snd (touched_all clock (indexed xs))) = touched_all clock (indexed xs)"
proof -
  have "map fst (touched_all clock (indexed xs)) = map show_nat [0..<length xs]"
    by (simp add: touched_all_fst indexed_def)
  moreover have "length (touched_all clock (indexed xs)) = length xs"
    by (simp add: touched_all_def indexed_def)
  ultimately have "indexed (map snd (touched_all clock (indexed xs))) =
      zip (map fst (touched_all clock (indexed xs))) (map snd (touched_all clock (indexed xs)))"
    by (simp add: indexed_def)
  then show ?thesis by (simp add: zip_map_fst_snd)
qed

lemma touched_all_strings:
  "touched_all clock (indexed (map (\<lambda>c. JStr [c]) s)) = indexed (map (\<lambda>c. JStr [c]) s)"
proof -
  have "\<forall>kv \<in> set (indexed (map (\<lambda>c. JStr [c]) s)). touched (clock (fst kv)) (snd kv) = snd kv"
    by (auto simp: indexed_def touched_def dest!: set_zip_rightD)
  then show ?thesis
    by (simp add: touched_all_def map_idI)
qed

lemma own_props_rebuild:
  "own_props (rebuild svcs (touched_all clock (own_props svcs))) = touched_all clock (own_props svcs)"
proof (cases svcs)
  case (JArr xs)
  then show ?thesis by (simp add: indexed_touched_all)
next
  case (JStr s)
  then show ?thesis by (simp add: touched_all_strings)
qed (simp_all add: touched_all_def)

lemma services_JObj:
  "map_of (own_props d) ''services'' = Some v \<Longrightarrow> \<exists>kvs. d = JObj kvs"
  by (cases d) (simp_all add: indexed_no_services)

lemma tick_updater_eq:
  "tick_updater clock d =
     (if tickable d
      then Inr (JObj (set_prop ''services''
             (rebuild (the (map_of (own_props d) ''services''))
                (touched_all clock (own_props (the (map_of (own_props d) ''services'')))))
             (own_props d)))
      else Inl TypeError)"
proof (cases "map_of (own_props d) ''services''")
  case None
  then show ?thesis by (simp add: tick_updater_def tickable_def)
next
  case (Some svcs)
  then show ?thesis
    by (cases "svcs = JNull")
       (simp_all add: tick_updater_def tickable_def object_entries_Some touch_all_eq)
qed

lemma tick_updater_Inr: "tick_updater clock d = Inr d' \<Longrightarrow> tickable d"
  by (simp add: tick_updater_eq split: if_splits)

lemma tick_updater_Inl: "tick_updater clock d = Inl e \<Longrightarrow> \<not> tickable d \<and> e = TypeError"
  by (simp add: tick_updater_eq split: if_splits)

lemma tick_service_at:
  assumes "tick_updater clock d = Inr d'"
  shows "service_at d' k = map_option (touched (clock k)) (service_at d k)"
proof -
  from assms have t: "tickable d" by (rule tick_updater_Inr)
  then obtain svcs where s: "map_of (own_props d) ''services'' = Some svcs"
    by (auto simp: tickable_def split: option.splits)
  from assms t s have "d' = JObj (set_prop ''services''
      (rebuild svcs (touched_all clock (own_props svcs))) (own_props d))"
    by (simp add: tick_updater_eq)
  with s show ?thesis
    by (simp add: service_at_def map_of_set_prop own_props_rebuild map_of_touched_all)
qed

lemma tick_tickable:
  assumes "tick_updater clock d = Inr d'"
  shows "tickable d'"
proof -
  from assms have t: "tickable d" by (rule tick_updater_Inr)
  then obtain svcs where s: "map_of (own_props d) ''services'' = Some svcs" "svcs \<noteq> JNull"
      "list_all (\<lambda>kv. snd kv \<noteq> JNull) (own_props svcs)"
    by (auto simp: tickable_def split: option.splits)
  from assms t s have d': "d' = JObj (set_prop ''services''
      (rebuild svcs (touched_all clock (own_props svcs))) (own_props d))"
    by (simp add: tick_updater_eq)
  have "rebuild svcs (touched_all clock (own_props svcs)) \<noteq> JNull"
    using s(2) by (cases svcs) simp_all
  with s d' show ?thesis
    by (simp add: tickable_def map_of_set_prop own_props_rebuild touched_all_nonnull)
qed

lemma map_unstamp_touched_all:
  "map (\<lambda>kv. (fst kv, unstamp_service (snd kv))) (touched_all clock es) =
   map (\<lambda>kv. (fst kv, unstamp_service (snd kv))) es"
  by (simp add: touched_all_def unstamp_service_touched)

lemma map_snd_indexed: "map snd (indexed xs) = xs"
  by (simp add: indexed_def)

lemma map_unstamp_touched_all_snd:
  "map (unstamp_service \<circ> snd) (touched_all clock (indexed xs)) = map unstamp_service xs"
proof -
  have "map (unstamp_service \<circ> snd) (touched_all clock (indexed xs)) =
      map unstamp_service (map snd (indexed xs))"
    by (simp add: touched_all_def unstamp_service_touched comp_def)
  then show ?thesis by (simp only: map_snd_indexed)
qed

lemma tick_unstamp:
  assumes "tick_updater clock d = Inr d'"
  shows "unstamp d' = unstamp d"
proof -
  from assms have t: "tickable d" by (rule tick_updater_Inr)
  then obtain svcs where s: "map_of (own_props d) ''services'' = Some svcs" "svcs \<noteq> JNull"
    by (auto simp: tickable_def split: option.splits)
  then obtain kvs where d: "d = JObj kvs" using services_JObj by blast
  from assms t s d have d': "d' = JObj (set_prop ''services''
      (rebuild svcs (touched_all clock (own_props svcs))) kvs)"
    by (simp add: tick_updater_eq)
  from s d have m: "map_of kvs ''services'' = Some svcs" by simp
  show ?thesis
  proof (cases svcs)
    case (JObj es)
    with d d' m show ?thesis
      by (simp add: unstamp_def map_of_set_prop set_prop_twice map_unstamp_touched_all)
  next
    case (JArr xs)
    with d d' m show ?thesis
      by (simp add: unstamp_def map_of_set_prop set_prop_twice map_unstamp_touched_all_snd)
  next
    case JNull
    with s show ?thesis by simp
  next
    case (JStr x)
    with d d' m show ?thesis by (simp add: set_prop_same)
  next
    case (JNum x)
    with d d' m show ?thesis by (simp add: set_prop_same)
  next
    case (JBool x)
    with d d' m show ?thesis by (simp add: set_prop_same)
  qed
qed

lemma tick_frame:
  "tick_updater clock d = Inr d' \<Longrightarrow> service_at d k = Some s \<Longrightarrow> \<not> is_running s \<Longrightarrow>
     service_at d' k = Some s"
  by (simp add: tick_service_at touched_idle)

lemma interval_fire_idle:
  "\<not> h < length (intervals st) \<or> intervals st ! h = None \<Longrightarrow> interval_fire h c st = Inr st"
  by (auto simp: interval_fire_def)

lemma interval_fire_active:
  assumes "h < length (intervals st)" "intervals st ! h = Some n"
  shows "interval_fire h c st =
     (case tick_updater (iso_time c) (spc st) of
        Inl e \<Rightarrow> Inl e
      | Inr next \<Rightarrow>
          Inr (if 4 \<le> n
               then st\<lparr>spc := next, isRunning := False,
                       logs := push_log log_cap_EPE
                         (entry ''success'' (pic_check @ '' Pipeline execution completed'') (done_time c))
                         (push_log log_cap_EPE
                           (entry ''info'' (pic_zap @ '' Tick '' @ show_nat (n + 1) @ '' - Processing services...'') (log_time c))
                           (logs st)),
                       intervals := (intervals st)[h := None]\<rparr>
               else st\<lparr>spc := next,
                       logs := push_log log_cap_EPE
                           (entry ''info'' (pic_zap @ '' Tick '' @ show_nat (n + 1) @ '' - Processing services...'') (log_time c))
                           (logs st),
                       intervals := (intervals st)[h := Some (n + 1)]\<rparr>))"
  using assms
  by (simp add: interval_fire_def Let_def addLog_EPE_def split: sum.splits)

lemma interval_fire_frame:
  assumes "interval_fire h c st = Inr st'" "service_at (spc st) k = Some s" "\<not> is_running s"
  shows "service_at (spc st') k = Some s"
proof (cases "h < length (intervals st)")
  case False
  with assms show ?thesis by (simp add: interval_fire_idle)
next
  case True
  show ?thesis
  proof (cases "intervals st ! h")
    case None
    with assms show ?thesis by (simp add: interval_fire_idle)
  next
    case (Some n)
    with True assms(1) obtain nxt where
      n: "tick_updater (iso_time c) (spc st) = Inr nxt" "spc st' = nxt"
      by (auto simp: interval_fire_active split: sum.splits if_splits)
    from tick_frame [OF n(1) assms(2,3)] n(2) show ?thesis by simp
  qed
qed

lemma untimed_push_log:
  "untimed (push_log cap (entry lv msg ts) l) = slice_last cap (untimed l @ [(lv, msg)])"
proof -
  have "untimed (push_log cap (entry lv msg ts) l) =
      drop (length (l @ [entry lv msg ts]) - cap) (untimed (l @ [entry lv msg ts]))"
    unfolding untimed_def push_log_def slice_last_def by (rule drop_map [symmetric])
  moreover have "untimed (l @ [entry lv msg ts]) = untimed l @ [(lv, msg)]"
    by (simp add: untimed_def entry_def)
  moreover have "length (l @ [entry lv msg ts]) = length (untimed l @ [(lv, msg)])"
    by (simp add: untimed_def)
  ultimately show ?thesis by (simp only: slice_last_def)
qed

section \<open>Properties of a run\<close>

lemma interval_fire_step:
  assumes "h < length (intervals st)" "intervals st ! h = Some n" "tickable (spc st)"
  shows "\<exists>st'. interval_fire h c st = Inr st' \<and> tickable (spc st')
           \<and> intervals st' = (intervals st)[h := if n + 1 < 5 then Some (n + 1) else None]
           \<and> isRunning st' = (if n + 1 < 5 then isRunning st else False)"
proof -
  from assms(3) obtain nxt where n: "tick_updater (iso_time c) (spc st) = Inr nxt"
    by (auto simp: tick_updater_eq)
  then have "tickable nxt" by (rule tick_tickable)
  with n assms(1,2) show ?thesis
    by (simp add: interval_fire_active)
qed

lemma fire_all_cleared:
  "\<not> h < length (intervals st) \<or> intervals st ! h = None \<Longrightarrow> fire_all h cs st = Inr st"
  by (induction cs) (simp_all add: interval_fire_idle)

lemma fire_all_outcome:
  assumes "h < length (intervals st)" "intervals st ! h = Some n" "n < 5" "tickable (spc st)"
  shows "\<exists>st'. fire_all h cs st = Inr st'
           \<and> intervals st' = (intervals st)[h := if n + length cs < 5 then Some (n + length cs) else None]
           \<and> isRunning st' = (if n + length cs < 5 then isRunning st else False)"
  using assms
proof (induction cs arbitrary: st n)
  case Nil
  then have "(intervals st)[h := Some n] = intervals st"
    by (metis list_update_id)
  with Nil show ?case by simp
next
  case (Cons c cs)
  from interval_fire_step [OF Cons.prems(1,2,4), of c] obtain st1 where
    s: "interval_fire h c st = Inr st1" "tickable (spc st1)"
       "intervals st1 = (intervals st)[h := if n + 1 < 5 then Some (n + 1) else None]"
       "isRunning st1 = (if n + 1 < 5 then isRunning st else False)"
    by blast
  show ?case
  proof (cases "n + 1 < 5")
    case True
    with s Cons.prems have "h < length (intervals st1)" "intervals st1 ! h = Some (n + 1)"
      by simp_all
    from Cons.IH [OF this True s(2)] s True show ?thesis by auto
  next
    case False
    with s Cons.prems have "intervals st1 ! h = None" by simp
    then have "fire_all h cs st1 = Inr st1" by (simp add: fire_all_cleared)
    with s False show ?thesis by simp
  qed
qed

lemma interval_fire_similar:
  assumes "similar a b" "tickable (spc a) = tickable (spc b)"
  shows "rel_sum (=) (\<lambda>x y. similar x y \<and> tickable (spc x) = tickable (spc y))
           (interval_fire h c a) (interval_fire h c' b)"
proof (cases "h < length (intervals a) \<and> intervals a ! h \<noteq> None")
  case False
  with assms have "interval_fire h c a = Inr a" "interval_fire h c' b = Inr b"
    by (auto simp: interval_fire_idle similar_def)
  with assms show ?thesis by simp
next
  case True
  then obtain n where n: "h < length (intervals a)" "intervals a ! h = Some n" by auto
  with assms have nb: "h < length (intervals b)" "intervals b ! h = Some n"
    by (simp_all add: similar_def)
  show ?thesis
  proof (cases "tickable (spc a)")
    case False
    with assms(2) show ?thesis
      by (simp add: interval_fire_active [OF n] interval_fire_active [OF nb] tick_updater_eq)
  next
    case True
    with assms(2) obtain da db where
      d: "tick_updater (iso_time c) (spc a) = Inr da" "tick_updater (iso_time c') (spc b) = Inr db"
      by (auto simp: tick_updater_eq)
    have "unstamp da = unstamp db"
      using tick_unstamp [OF d(1)] tick_unstamp [OF d(2)] assms(1) by (simp add: similar_def)
    moreover have "tickable da" "tickable db"
      using d by (auto intro: tick_tickable)
    ultimately show ?thesis
      using assms(1) d
      by (simp add: interval_fire_active [OF n] interval_fire_active [OF nb] similar_def
          untimed_push_log)
  qed
qed

lemma fire_all_similar:
  assumes "length cs = length cs'" "similar a b" "tickable (spc a) = tickable (spc b)"
  shows "same_outcome (fire_all h cs a) (fire_all h cs' b)"
  using assms
proof (induction cs cs' arbitrary: a b rule: list_induct2)
  case Nil
  then show ?case by simp
next
  case (Cons c cs c' cs')
  note rel = interval_fire_similar [OF Cons.prems, of h c c']
  show ?case
  proof (cases "interval_fire h c a")
    case (Inl e)
    with rel show ?thesis by (cases "interval_fire h c' b") simp_all
  next
    case (Inr x)
    with rel obtain y where y: "interval_fire h c' b = Inr y" "similar x y"
      "tickable (spc x) = tickable (spc y)"
      by (cases "interval_fire h c' b") simp_all
    with Inr Cons.IH [of x y] show ?thesis by simp
  qed
qed

text \<open>On any other document the first tick of a run throws.\<close>

lemma run_throws: "\<not> tickable (spc st) \<Longrightarrow> run t0 (c # cs) st = Inl TypeError"
  by (simp add: run_def runPipeline_EPE_def addLog_EPE_def interval_fire_active tick_updater_eq)

lemma interval_fire_status:
  assumes "interval_fire h c st = Inr st'" "service_at (spc st) k = Some s"
  shows "\<exists>s'. service_at (spc st') k = Some s' \<and> is_running s' = is_running s"
proof (cases "h < length (intervals st) \<and> intervals st ! h \<noteq> None")
  case False
  with assms show ?thesis by (auto simp: interval_fire_idle)
next
  case True
  then obtain n where n: "h < length (intervals st)" "intervals st ! h = Some n" by auto
  with assms(1) obtain nxt where
    t: "tick_updater (iso_time c) (spc st) = Inr nxt" "spc st' = nxt"
    by (auto simp: interval_fire_active split: sum.splits if_splits)
  with assms(2) show ?thesis
    by (simp add: tick_service_at is_running_touched)
qed

lemma fire_all_status:
  "fire_all h cs st = Inr st' \<Longrightarrow> service_at (spc st) k = Some s \<Longrightarrow>
     \<exists>s'. service_at (spc st') k = Some s' \<and> is_running s' = is_running s"
proof (induction cs arbitrary: st s)
  case Nil
  then show ?case by simp
next
  case (Cons c cs)
  from Cons.prems(1) obtain st1 where
    s1: "interval_fire h c st = Inr st1" "fire_all h cs st1 = Inr st'"
    by (auto split: sum.splits)
  from interval_fire_status [OF s1(1) Cons.prems(2)] obtain s1' where
    "service_at (spc st1) k = Some s1'" "is_running s1' = is_running s" by blast
  with Cons.IH [OF s1(2), of s1'] show ?case by auto
qed

lemma run_status:
  "run t0 cs st = Inr st' \<Longrightarrow> service_at (spc st) k = Some s \<Longrightarrow>
     \<exists>s'. service_at (spc st') k = Some s' \<and> is_running s' = is_running s"
  using fire_all_status [of "length (intervals st)" cs "runPipeline_EPE t0 st" st' k s]
  by (simp add: run_def runPipeline_EPE_def addLog_EPE_def)

text \<open>
  A scheduled tick before the fifth, on a document none of whose services is running:
  the run's counter goes up by one, one entry is logged, the document is what it was.
\<close>

lemma touched_all_idle:
  "list_all (\<lambda>kv. \<not> is_running (snd kv)) es \<Longrightarrow> touched_all clock es = es"
  by (induction es) (simp_all add: touched_all_def touched_idle)

lemma rebuild_own_props: "rebuild svcs (own_props svcs) = svcs"
  by (cases svcs) (simp_all add: map_snd_indexed)

lemma tick_updater_idle:
  assumes "tickable d" "none_running d"
  shows "tick_updater clock d = Inr d"
proof -
  from assms(1) obtain svcs where s: "map_of (own_props d) ''services'' = Some svcs"
    by (auto simp: tickable_def split: option.splits)
  then obtain kvs where d: "d = JObj kvs" using services_JObj by blast
  from assms(2) s have "touched_all clock (own_props svcs) = own_props svcs"
    by (simp add: none_running_def touched_all_idle)
  with assms(1) s d show ?thesis
    by (simp add: tick_updater_eq rebuild_own_props set_prop_same)
qed

lemma idle_tick_keeps_document:
  assumes "h < length (intervals st)" "intervals st ! h = Some n" "n < 4"
    "tickable (spc st)" "none_running (spc st)"
  shows "interval_fire h c st =
     Inr (st\<lparr>logs := push_log log_cap_EPE
                 (entry ''info''
                    (pic_zap @ '' Tick '' @ show_nat (n + 1) @ '' - Processing services...'')
                    (log_time c)) (logs st),
              intervals := (intervals st)[h := Some (n + 1)]\<rparr>)"
  using assms by (simp add: interval_fire_active tick_updater_idle)

text \<open>
  \<open>unstamp\<close> forgets nothing but the stamps of running services: a document none of
  whose services is running is its own image.
\<close>

lemma unstamp_service_idle: "\<not> is_running s \<Longrightarrow> unstamp_service s = s"
  by (cases s) (simp_all add: unstamp_service_def)

lemma unstamp_idle:
  assumes "none_running d"
  shows "unstamp d = d"
proof (cases d)
  case d: (JObj kvs)
  show ?thesis
  proof (cases "map_of kvs ''services''")
    case None
    with d show ?thesis by (simp add: unstamp_def)
  next
    case (Some svcs)
    show ?thesis
    proof (cases svcs)
      case (JObj es)
      with assms Some d
      have "map (\<lambda>kv. (fst kv, unstamp_service (snd kv))) es = es"
        by (simp add: none_running_def list_all_iff unstamp_service_idle map_idI)
      with JObj Some d show ?thesis
        by (simp add: unstamp_def set_prop_same)
    next
      case (JArr xs)
      with assms Some d
      have "list_all (\<lambda>kv. \<not> is_running (snd kv)) (indexed xs)"
        by (simp add: none_running_def)
      then have "\<forall>x \<in> set (map snd (indexed xs)). \<not> is_running x"
        by (simp add: list_all_iff)
      then have "map unstamp_service xs = xs"
        by (simp add: map_snd_indexed unstamp_service_idle map_idI)
      with JArr Some d show ?thesis
        by (simp add: unstamp_def set_prop_same)
    next
      case JNull
      with Some d show ?thesis by (simp add: unstamp_def)
    next
      case (JBool b)
      with Some d show ?thesis by (simp add: unstamp_def)
    next
      case (JNum n)
      with Some d show ?thesis by (simp add: unstamp_def)
    next
      case (JStr s)
      with Some d show ?thesis by (simp add: unstamp_def)
    qed
  qed
qed (simp_all add: unstamp_def)

section \<open>The example document under a tick\<close>

lemma crowded_facts:
  "tickable crowded_spc"
  "service_at crowded_spc ''connector-7'' =
     Some (JObj [(''id'', JStr ''connector-7''), (''type'', JStr ''connector''),
                 (''title'', JStr ''Orders feed''),
                 (''spec'', JObj [(''url'', JStr ''https://orders.example.com''),
                                  (''outputKey'', JStr ''orders'')]),
                 (''status'', JStr ''running'')])"
  "service_at crowded_spc ''adapter-9'' =
     Some (JObj [(''id'', JStr ''adapter-9''), (''type'', JStr ''adapter''),
                 (''title'', JStr ''Adapter 2''),
                 (''spec'', JObj [(''kind'', JStr ''webhook''), (''url'', JStr [])]),
                 (''status'', JStr ''stopped'')])"
  by (simp_all add: tickable_def crowded_spc_def service_at_def)

lemma tick_crowded:
  "tick_updater (\<lambda>k. t) crowded_spc =
     Inr (JObj [(''spc_version'', JStr ''1.0''),
           (''meta'', JObj [(''name'', JStr ''Orders'')]),
           (''services'',
              JObj [(''connector-7'',
                       JObj [(''id'', JStr ''connector-7''), (''type'', JStr ''connector''),
                             (''title'', JStr ''Orders feed''),
                             (''spec'', JObj [(''url'', JStr ''https://orders.example.com''),
                                              (''outputKey'', JStr ''orders'')]),
                             (''status'', JStr ''running''),
                             (''lastRun'', JStr t)]),
                    (''adapter-9'',
                       JObj [(''id'', JStr ''adapter-9''), (''type'', JStr ''adapter''),
                             (''title'', JStr ''Adapter 2''),
                             (''spec'', JObj [(''kind'', JStr ''webhook''), (''url'', JStr [])]),
                             (''status'', JStr ''stopped'')])]),
           (''state'', JObj [])])"
  by (simp add: tick_updater_def crowded_spc_def touch_def)

section \<open>Ticks, runs and the scheduler\<close>

text \<open>
  Claim C7. A tick leaves every service that is not \<^verbatim>\<open>running\<close> as it is: after a
  firing of the run's interval that throws nothing, the service stored under a key is
  the very value stored there before, \<^verbatim>\<open>lastRun\<close> and all; and \<^verbatim>\<open>tickOnce\<close>, in
  both editors, does not touch the document at all.
\<close>

theorem tick_leaves_idle_services:
  "(interval_fire h c st = Inr st' \<and> service_at (spc st) k = Some s \<and> \<not> is_running s \<longrightarrow>
      service_at (spc st') k = Some s)
   \<and> spc (tickOnce_EPE ts st) = spc st
   \<and> spc (tickOnce_PE ts st2) = spc st2"
  using interval_fire_frame [of h c st st' k s]
  by (simp add: tickOnce_EPE_def tickOnce_PE_def addLog_EPE_def addLog_PE_def)

theorem tick_leaves_idle_services_witness:
  "\<exists>st'. interval_fire 0 clock_a (runPipeline_EPE ''10:00:00'' crowded_EPE) = Inr st'
      \<and> service_at (spc st') ''adapter-9'' = service_at crowded_spc ''adapter-9''
      \<and> service_at (spc st') ''connector-7'' \<noteq> service_at crowded_spc ''connector-7''"
proof -
  let ?st = "runPipeline_EPE ''10:00:00'' crowded_EPE"
  have st: "spc ?st = crowded_spc" "intervals ?st = [Some 0]"
    by (simp_all add: runPipeline_EPE_def addLog_EPE_def crowded_EPE_def initial_EPE_def)
  with crowded_facts(1) interval_fire_step [of 0 ?st 0 clock_a] obtain st' where
    f: "interval_fire 0 clock_a ?st = Inr st'" by auto
  let ?adapter = "JObj [(''id'', JStr ''adapter-9''), (''type'', JStr ''adapter''),
                 (''title'', JStr ''Adapter 2''),
                 (''spec'', JObj [(''kind'', JStr ''webhook''), (''url'', JStr [])]),
                 (''status'', JStr ''stopped'')]"
  have idle: "\<not> is_running ?adapter" by (simp add: is_running_def)
  from tick_leaves_idle_services [of 0 clock_a ?st st' "''adapter-9''" ?adapter] f st
    crowded_facts(3) idle
  have a: "service_at (spc st') ''adapter-9'' = service_at crowded_spc ''adapter-9''"
    by simp
  from f st(2) obtain nxt where
    t: "tick_updater (iso_time clock_a) (spc ?st) = Inr nxt" "spc st' = nxt"
    by (auto simp: interval_fire_active split: sum.splits if_splits)
  have "service_at (spc st') ''connector-7'' \<noteq> service_at crowded_spc ''connector-7''"
    using t st(1) crowded_facts(2)
    by (simp add: tick_service_at touched_def is_running_def)
  with f a show ?thesis by blast
qed

text \<open>
  Claim C3, as the code has it. On a document whose tick throws nothing,
  \<^verbatim>\<open>runPipeline\<close> followed by firings of its interval, with nothing else in between,
  executes one tick per firing up to the fifth and then halts by itself: the interval
  is cleared and \<^verbatim>\<open>isRunning\<close> is false from the fifth firing on, whatever the
  services' statuses. Before the fifth firing the run is still on and its counter is
  the number of firings.
\<close>

theorem run_halts_after_five:
  assumes "tickable (spc st)"
  shows "\<exists>st'. run t0 cs st = Inr st'
       \<and> intervals st' = intervals st @ [if length cs < 5 then Some (length cs) else None]
       \<and> isRunning st' = (length cs < 5)"
proof -
  let ?s = "runPipeline_EPE t0 st"
  have i: "intervals ?s = intervals st @ [Some 0]" "isRunning ?s" "spc ?s = spc st"
    by (simp_all add: runPipeline_EPE_def addLog_EPE_def)
  then have "length (intervals st) < length (intervals ?s)"
    "intervals ?s ! length (intervals st) = Some 0" "tickable (spc ?s)"
    using assms by simp_all
  from fire_all_outcome [OF this(1,2) _ this(3), of cs] i show ?thesis
    by (cases "length cs < 5") (auto simp: run_def)
qed

theorem run_halts_after_five_witness:
  "(\<exists>st'. run ''10:00:00'' [clock_a, clock_b, clock_a] crowded_EPE = Inr st'
       \<and> intervals st' = [Some 3] \<and> isRunning st')
   \<and> (\<exists>st'. run ''10:00:00'' [clock_a, clock_b, clock_a, clock_b, clock_a, clock_b]
               crowded_EPE = Inr st'
       \<and> intervals st' = [None] \<and> \<not> isRunning st')"
  using run_halts_after_five [of crowded_EPE "''10:00:00''" "[clock_a, clock_b, clock_a]"]
    run_halts_after_five [of crowded_EPE "''10:00:00''"
      "[clock_a, clock_b, clock_a, clock_b, clock_a, clock_b]"]
    crowded_facts(1)
  by (simp add: crowded_EPE_def initial_EPE_def numeral_3_eq_3)

text \<open>
  Claim C3 as stated fails twice. After five ticks the loop has halted although
  \<^verbatim>\<open>stopPipeline\<close> was never called and the connector is still \<^verbatim>\<open>running\<close>. And after
  \<^verbatim>\<open>stopPipeline\<close> the interval is still armed: its next firing executes a tick.
\<close>

theorem run_halts_with_running_service:
  "(\<exists>st' s. run ''10:00:00'' [clock_a, clock_a, clock_a, clock_a, clock_a] crowded_EPE = Inr st'
       \<and> intervals st' = [None] \<and> \<not> isRunning st'
       \<and> service_at (spc st') ''connector-7'' = Some s \<and> is_running s)
   \<and> (\<exists>st'. interval_fire 0 clock_a
               (stopPipeline_EPE ''10:00:00'' (runPipeline_EPE ''10:00:00'' crowded_EPE)) = Inr st'
       \<and> intervals st' = [Some 1])"
proof -
  have c: "spc crowded_EPE = crowded_spc" "intervals crowded_EPE = []"
    by (simp_all add: crowded_EPE_def initial_EPE_def)
  let ?s0 = "runPipeline_EPE ''10:00:00'' crowded_EPE"
  have s0: "spc ?s0 = crowded_spc" "intervals ?s0 = [Some 0]"
    by (simp_all add: runPipeline_EPE_def addLog_EPE_def c)
  from fire_all_outcome [of 0 ?s0 0 "[clock_a, clock_a, clock_a, clock_a, clock_a]"]
    crowded_facts(1) s0 c
  obtain st' where
    r: "run ''10:00:00'' [clock_a, clock_a, clock_a, clock_a, clock_a] crowded_EPE = Inr st'"
    "intervals st' = [None]" "\<not> isRunning st'"
    by (auto simp: run_def)
  from run_status [OF r(1), of "''connector-7''"] crowded_facts(2) c(1)
  obtain s where "service_at (spc st') ''connector-7'' = Some s" "is_running s"
    by (auto simp: is_running_def)
  with r have one:
    "\<exists>st' s. run ''10:00:00'' [clock_a, clock_a, clock_a, clock_a, clock_a] crowded_EPE = Inr st'
       \<and> intervals st' = [None] \<and> \<not> isRunning st'
       \<and> service_at (spc st') ''connector-7'' = Some s \<and> is_running s"
    by blast
  let ?st = "stopPipeline_EPE ''10:00:00'' (runPipeline_EPE ''10:00:00'' crowded_EPE)"
  have st: "spc ?st = crowded_spc" "intervals ?st = [Some 0]"
    by (simp_all add: stopPipeline_EPE_def runPipeline_EPE_def addLog_EPE_def c)
  with crowded_facts(1) interval_fire_step [of 0 ?st 0 clock_a]
  have two: "\<exists>st'. interval_fire 0 clock_a ?st = Inr st' \<and> intervals st' = [Some 1]"
    by auto
  from one two show ?thesis by blast
qed

text \<open>
  Claim C2, as the code has it. Two runs from the same editor state with the same number
  of interval firings, whatever their clocks read, either both throw the same exception
  or end in states with the same running flag, the same intervals, the same log entries
  up to their timestamps, and the same document up to the \<^verbatim>\<open>lastRun\<close> of the
  running services. There is no ledger.
\<close>

theorem runs_agree_up_to_clock:
  assumes "length cs = length cs'"
  shows "same_outcome (run t0 cs st) (run t0' cs' st)"
proof -
  have "similar (runPipeline_EPE t0 st) (runPipeline_EPE t0' st)"
    by (simp add: similar_def runPipeline_EPE_def addLog_EPE_def untimed_push_log)
  moreover have "spc (runPipeline_EPE t0 st) = spc (runPipeline_EPE t0' st)"
    by (simp add: runPipeline_EPE_def addLog_EPE_def)
  ultimately show ?thesis
    using assms by (simp add: run_def fire_all_similar)
qed

theorem runs_agree_up_to_clock_witness:
  "\<exists>a b. run ''10:00:00'' [clock_a, clock_a] crowded_EPE = Inr a
     \<and> run ''11:30:00'' [clock_b, clock_a] crowded_EPE = Inr b
     \<and> similar a b"
proof -
  have c: "spc crowded_EPE = crowded_spc" "intervals crowded_EPE = []"
    by (simp_all add: crowded_EPE_def initial_EPE_def)
  let ?sa = "runPipeline_EPE ''10:00:00'' crowded_EPE"
  let ?sb = "runPipeline_EPE ''11:30:00'' crowded_EPE"
  have s: "spc ?sa = crowded_spc" "intervals ?sa = [Some 0]"
    "spc ?sb = crowded_spc" "intervals ?sb = [Some 0]"
    by (simp_all add: runPipeline_EPE_def addLog_EPE_def c)
  from fire_all_outcome [of 0 ?sa 0 "[clock_a, clock_a]"] crowded_facts(1) s c
  obtain a where a: "run ''10:00:00'' [clock_a, clock_a] crowded_EPE = Inr a"
    by (auto simp: run_def)
  from fire_all_outcome [of 0 ?sb 0 "[clock_b, clock_a]"] crowded_facts(1) s c
  obtain b where b: "run ''11:30:00'' [clock_b, clock_a] crowded_EPE = Inr b"
    by (auto simp: run_def)
  from runs_agree_up_to_clock [of "[clock_a, clock_a]" "[clock_b, clock_a]" "''10:00:00''"
      crowded_EPE "''11:30:00''"] a b
  have "similar a b" by simp
  with a b show ?thesis by blast
qed

text \<open>
  Claim C2 as stated fails: two runs of one tick on the same document, started at the
  same time, end in different states when the clock read during the tick differs by
  seven milliseconds, because the reading is stored in the running connector's
  \<^verbatim>\<open>lastRun\<close>.
\<close>

theorem runs_differ:
  "run ''10:00:00'' [clock_a] crowded_EPE \<noteq> run ''10:00:00'' [clock_b] crowded_EPE"
  by (simp add: run_def runPipeline_EPE_def crowded_EPE_def initial_EPE_def addLog_EPE_def
      interval_fire_def Let_def clock_a_def clock_b_def tick_crowded)

text \<open>
  Claim C8, as the code has it. \<^verbatim>\<open>tickOnce\<close> appends one entry to the execution log
  (level \<^verbatim>\<open>info\<close>, a fixed message), the log being cut to its cap, and changes nothing
  else: the document with its \<^verbatim>\<open>state\<close>, the running flag and the timers are what
  they were, whatever the services' statuses. No counter is advanced and there is no
  ledger.
\<close>

theorem tickOnce_only_logs:
  "spc (tickOnce_PE ts st) = spc st
   \<and> isRunning (tickOnce_PE ts st) = isRunning st
   \<and> timeouts (tickOnce_PE ts st) = timeouts st
   \<and> executionLog (tickOnce_PE ts st) =
       slice_last 50 (executionLog st @ [entry ''info'' (pic_zap @ '' Single tick executed'') ts])
   \<and> spc (tickOnce_EPE ts st') = spc st'
   \<and> isRunning (tickOnce_EPE ts st') = isRunning st'
   \<and> intervals (tickOnce_EPE ts st') = intervals st'
   \<and> logs (tickOnce_EPE ts st') =
       slice_last 30 (logs st' @ [entry ''info'' (pic_zap @ '' Manual tick executed'') ts])"
  by (simp add: tickOnce_PE_def tickOnce_EPE_def addLog_PE_def addLog_EPE_def push_log_def
      log_cap_PE_def log_cap_EPE_def)

text \<open>
  Claim C8 as stated fails: on the initial document, which has no service at all,
  \<^verbatim>\<open>tickOnce\<close> during a run leaves the run's tick counter at 0, and outside a run
  there is no counter to advance.
\<close>

theorem tickOnce_advances_no_counter:
  "intervals (runPipeline_EPE ''10:00:00'' (initial_EPE ''2024-01-01T00:00:00.000Z'')) = [Some 0]
   \<and> intervals (tickOnce_EPE ''10:00:03''
        (runPipeline_EPE ''10:00:00'' (initial_EPE ''2024-01-01T00:00:00.000Z''))) = [Some 0]
   \<and> intervals (tickOnce_EPE ''10:00:03'' (initial_EPE ''2024-01-01T00:00:00.000Z'')) = []"
  by (simp add: tickOnce_EPE_def runPipeline_EPE_def addLog_EPE_def initial_EPE_def)

section \<open>Properties of export\<close>

text \<open>
  When the document's \<^verbatim>\<open>meta.name\<close> is a string, the export succeeds and the
  download's content is the serialisation of the whole state cell.
\<close>

lemma export_content:
  "map_of (own_props (spc st)) ''meta'' = Some meta \<Longrightarrow>
   map_of (own_props meta) ''name'' = Some (JStr n) \<Longrightarrow>
     \<exists>d st'. exportSPC_PE S ts st = Inr (d, st') \<and> content d = S (spc st) \<and> spc st' = spc st"
  by (cases "spc st"; cases meta)
     (auto simp: exportSPC_PE_def export_name_def get_prop_Some addLog_PE_def)

text \<open>
  Claim C6 fails on the code. A document without \<^verbatim>\<open>meta.name\<close> passes
  \<^verbatim>\<open>PipelineEditor\<close>'s import check and becomes the current document; exporting it
  throws a \<^verbatim>\<open>TypeError\<close> in both editors, whatever the serialiser, before the download
  is triggered.
\<close>

theorem export_throws_without_name:
  "spc (importSPC_PE (\<lambda>t. Inr nameless_doc) (Some text) ts st) = nameless_doc
   \<and> exportSPC_PE S ts' (importSPC_PE (\<lambda>t. Inr nameless_doc) (Some text) ts st) = Inl TypeError
   \<and> exportSPC_EPE S ts' (importSPC_EPE (\<lambda>t. Inr nameless_doc) (Some text) ts st')
       = Inl TypeError"
  by (simp add: importSPC_PE_def importSPC_EPE_def load_PE_def load_EPE_def nameless_doc_def
      exportSPC_PE_def exportSPC_EPE_def export_name_def addLog_PE_def addLog_EPE_def)

end
